theory Spec2Isabelle
  imports Complex_Main
begin

section \<open>Common data: Python errors\<close>

text \<open>
  The two scripts raise no exception of their own; every failure is one of Python's or
  numpy's built-in exceptions. Floating-point numbers are modelled as real numbers, so
  the arithmetic of the model is exact.
\<close>

datatype error = ValueError | IndexError | TypeError | ZeroDivisionError

definition bnd :: "error + 'a \<Rightarrow> ('a \<Rightarrow> error + 'b) \<Rightarrow> error + 'b" where
  "bnd m f = (case m of Inl e \<Rightarrow> Inl e | Inr x \<Rightarrow> f x)"

section \<open>airfoil\_opt.py: KS aggregation\<close>

text \<open>
  \<^verbatim>\<open>np.max(g)\<close>: the maximum of a one-dimensional array; numpy raises
  ValueError on an array of size zero.
\<close>

definition np_max :: "real list \<Rightarrow> error + real" where
  "np_max g = (if g = [] then Inl ValueError else Inr (Max (set g)))"

text \<open>
  \<^verbatim>\<open>
  def ksAgg(g, rho=1.0):
      maxg = np.max(g)
      return maxg + 1.0 / rho * np.log(np.sum(np.exp(rho * (g - maxg))))
  \<close>
  The quotient \<^verbatim>\<open>1.0 / rho\<close> is a division of Python floats, which raises
  ZeroDivisionError when \<^verbatim>\<open>rho\<close> is zero.
\<close>

definition ksAgg :: "real list \<Rightarrow> real \<Rightarrow> error + real" where
  "ksAgg g rho =
     bnd (np_max g) (\<lambda>maxg.
       if rho = 0 then Inl ZeroDivisionError
       else Inr (maxg + 1 / rho * ln (sum_list (map (\<lambda>gi. exp (rho * (gi - maxg))) g))))"

text \<open>
  The naive log-sum-exp formula that the stabilised form is compared with:
  \<open>(1/rho) \<cdot> ln (\<Sum>\<^sub>i exp (rho \<cdot> g\<^sub>i))\<close>. It is not in the source; it follows the
  wording of the specification.
\<close>

definition ks_naive :: "real list \<Rightarrow> real \<Rightarrow> real" where
  "ks_naive g rho = 1 / rho * ln (sum_list (map (\<lambda>gi. exp (rho * gi)) g))"

section \<open>airfoil\_opt.py: command-line arguments\<close>

text \<open>The namespace returned by \<^verbatim>\<open>parser.parse_args()\<close>, one field per option.\<close>

record args =
  mach :: real
  "output" :: string
  cl :: real
  alt :: real
  preTrim :: bool
  volCon :: bool
  volUpper :: real
  volLower :: real
  tcMin :: real
  zeroLift :: bool
  relThickLower :: real
  absThickLower :: real

text \<open>
  \<^verbatim>\<open>
  if args.zeroLift and args.cl!=0.:
      args.cl = 0.
  elif not args.zeroLift and args.cl==0.:
      args.zeroLift=True
  \<close>
\<close>

definition normalize_args :: "args \<Rightarrow> args" where
  "normalize_args a =
     (if zeroLift a \<and> cl a \<noteq> 0 then a\<lparr>cl := 0\<rparr>
      else if \<not> zeroLift a \<and> cl a = 0 then a\<lparr>zeroLift := True\<rparr>
      else a)"

text \<open>The defaults of the parser, as a sample namespace.\<close>

definition default_args :: args where
  "default_args = \<lparr>mach = 0.75, output = ''output'', cl = 0.5, alt = 10000,
     preTrim = False, volCon = False, volUpper = 0.07, volLower = 0.064837137176294343,
     tcMin = 0.12, zeroLift = False, relThickLower = 0.1, absThickLower = 0.00035\<rparr>"

section \<open>simple\_ffd.py: library operations\<close>

text \<open>
  The script calls numpy and Python built-ins. Each one used is modelled here by what it
  returns on the arguments the script can pass, with its exceptions as \<open>Inl\<close>.
\<close>

text \<open>Indexing a Python list with a non-negative index.\<close>

definition getitem :: "'a list \<Rightarrow> nat \<Rightarrow> error + 'a" where
  "getitem xs i = (if i < length xs then Inr (xs ! i) else Inl IndexError)"

text \<open>\<^verbatim>\<open>a[j, k]\<close> on a two-dimensional array stored as a list of rows.\<close>

definition getitem2 :: "'a list list \<Rightarrow> nat \<Rightarrow> nat \<Rightarrow> error + 'a" where
  "getitem2 a j k = bnd (getitem a j) (\<lambda>r. getitem r k)"

text \<open>\<^verbatim>\<open>range(n)\<close>: empty when \<open>n \<le> 0\<close>.\<close>

definition py_range :: "int \<Rightarrow> nat list" where
  "py_range n = [0..<nat n]"

text \<open>
  \<^verbatim>\<open>numpy.linspace(start, stop, num)\<close> with the default \<^verbatim>\<open>endpoint=True\<close>: a
  negative \<open>num\<close> raises ValueError; otherwise sample \<open>i\<close> is \<open>i \<cdot> step + start\<close> with
  \<open>step = (stop - start) / (num - 1)\<close> when \<open>num - 1 > 0\<close> (and \<open>i \<cdot> (stop - start) + start\<close>
  otherwise), and when \<open>num > 1\<close> the last sample is overwritten with \<open>stop\<close>.
\<close>

definition linspace :: "real \<Rightarrow> real \<Rightarrow> int \<Rightarrow> error + real list" where
  "linspace start stop num =
     (if num < 0 then Inl ValueError
      else
        let n = nat num;
            delta = stop - start;
            y = map (\<lambda>i. (if 0 < num - 1 then real i * (delta / real_of_int (num - 1))
                           else real i * delta) + start) [0..<n]
        in Inr (if 1 < num then y[n - 1 := stop] else y))"

text \<open>\<^verbatim>\<open>numpy.zeros((m, n))\<close> and \<^verbatim>\<open>numpy.ones(n)\<close>; a negative dimension raises ValueError.\<close>

definition zeros :: "int \<Rightarrow> int \<Rightarrow> error + real list list" where
  "zeros m n = (if m < 0 \<or> n < 0 then Inl ValueError
                else Inr (replicate (nat m) (replicate (nat n) 0)))"

definition ones :: "int \<Rightarrow> error + real list" where
  "ones n = (if n < 0 then Inl ValueError else Inr (replicate (nat n) 1))"

text \<open>
  \<^verbatim>\<open>A[row, :] = v\<close>: IndexError when \<open>row\<close> is out of bounds. The vectors assigned by
  the script have the length of the rows of \<open>A\<close>, so no broadcasting takes place.
\<close>

definition setrow :: "real list list \<Rightarrow> nat \<Rightarrow> real list \<Rightarrow> error + real list list" where
  "setrow A r v = (if r < length A then Inr (A[r := v]) else Inl IndexError)"

text \<open>
  A \<^verbatim>\<open>for\<close> loop over a list, threading the state and stopping at the first
  exception.
\<close>

fun for_each :: "'a list \<Rightarrow> ('a \<Rightarrow> 's \<Rightarrow> error + 's) \<Rightarrow> 's \<Rightarrow> error + 's" where
  "for_each [] f s = Inr s"
| "for_each (x # xs) f s = bnd (f x s) (for_each xs f)"

subsection \<open>String formatting\<close>

definition TAB :: char where
  "TAB = CHR 0x09"

definition NL :: char where
  "NL = CHR 0x0A"

fun digits :: "nat \<Rightarrow> string" where
  "digits n = (if n < 10 then [''0123456789'' ! n]
               else digits (n div 10) @ [''0123456789'' ! (n mod 10)])"

declare digits.simps [simp del]

text \<open>The conversion \<^verbatim>\<open>%d\<close> of a Python integer.\<close>

definition format_d :: "int \<Rightarrow> string" where
  "format_d i = (if i < 0 then CHR ''-'' # digits (nat (- i)) else digits (nat i))"

definition round_half_even :: "real \<Rightarrow> int" where
  "round_half_even x =
     (let f = \<lfloor>x\<rfloor>; r = x - real_of_int f
      in if r < 1 / 2 then f else if 1 / 2 < r then f + 1 else if even f then f else f + 1)"

text \<open>
  The conversion \<^verbatim>\<open>%3.8f\<close> of a number: sign, integer part, point and eight
  decimals, the value rounded to the nearest multiple of \<open>10\<^sup>-\<^sup>8\<close> (ties to even). The
  minimum width 3 never pads, the result having at least ten characters.
\<close>

definition format_f8 :: "real \<Rightarrow> string" where
  "format_f8 x =
     (let m = round_half_even (\<bar>x\<bar> * 10 ^ 8);
          frac = digits (nat (m mod 10 ^ 8))
      in (if x < 0 then [CHR ''-''] else []) @ digits (nat (m div 10 ^ 8)) @ [CHR ''.'']
           @ replicate (8 - length frac) (CHR ''0'') @ frac)"

text \<open>
  \<^verbatim>\<open>'\t%3.8f\t%3.8f\t%3.8f\t%3.8f\t%3.8f\t%3.8f\n' % vals\<close>: the format has six
  conversions, and the operator raises TypeError unless the tuple has exactly six
  elements.
\<close>

definition format_row :: "real list \<Rightarrow> error + string" where
  "format_row vals =
     (if length vals = 6
      then Inr (TAB # format_f8 (vals ! 0) @ TAB # format_f8 (vals ! 1)
              @ TAB # format_f8 (vals ! 2) @ TAB # format_f8 (vals ! 3)
              @ TAB # format_f8 (vals ! 4) @ TAB # format_f8 (vals ! 5) @ [NL])
      else Inl TypeError)"

section \<open>simple\_ffd.py: the lattice generator\<close>

text \<open>
  The script's top-level constants are the generator's inputs. The exponent of the
  spanwise distribution is the literal \<^verbatim>\<open>0.8\<close> of the script; it is a field here
  so that the properties can be stated for every positive exponent.
\<close>

record ffd_config =
  x_root_range :: "real list"
  y_root_range :: "real list"
  z_root :: real
  x_tip_range :: "real list"
  y_tip_range :: "real list"
  z_tip :: real
  nX :: int
  nY :: int
  nZ :: int
  span_exponent :: real

text \<open>The values written in the script.\<close>

definition shipped_config :: ffd_config where
  "shipped_config = \<lparr>x_root_range = [-0.1, 5.1], y_root_range = [-0.5, 0.5], z_root = -0.01,
     x_tip_range = [7.4, 9.2], y_tip_range = [-0.25, 0.25], z_tip = 14.25,
     nX = 6, nY = 2, nZ = 8, span_exponent = 0.8\<rparr>"

text \<open>
  \<^verbatim>\<open>span_dist = numpy.linspace(0, 1, nZ)**0.8\<close>. The samples lie in \<open>[0, 1]\<close>, where
  numpy's power with a positive exponent is \<open>powr\<close>.
\<close>

definition span_dist :: "ffd_config \<Rightarrow> error + real list" where
  "span_dist c = bnd (linspace 0 1 (nZ c)) (\<lambda>t. Inr (map (\<lambda>x. x powr span_exponent c) t))"

text \<open>\<^verbatim>\<open>span_dist*(tip - root) + root\<close>, elementwise.\<close>

definition interpolate :: "real list \<Rightarrow> real \<Rightarrow> real \<Rightarrow> real list" where
  "interpolate sd tip_v root_v = map (\<lambda>t. t * (tip_v - root_v) + root_v) sd"

text \<open>The arrays computed before the loop (lines 19 to 24).\<close>

record sections =
  z_sections :: "real list"
  x_te :: "real list"
  x_le :: "real list"
  y_coords :: "real list list"

definition compute_sections :: "ffd_config \<Rightarrow> error + sections" where
  "compute_sections c =
     bnd (span_dist c) (\<lambda>sd.
     bnd (getitem (x_tip_range c) 0) (\<lambda>xt0.
     bnd (getitem (x_root_range c) 0) (\<lambda>xr0.
     bnd (getitem (x_tip_range c) 1) (\<lambda>xt1.
     bnd (getitem (x_root_range c) 1) (\<lambda>xr1.
     bnd (getitem (y_tip_range c) 0) (\<lambda>yt0.
     bnd (getitem (y_root_range c) 0) (\<lambda>yr0.
     bnd (getitem (y_tip_range c) 1) (\<lambda>yt1.
     bnd (getitem (y_root_range c) 1) (\<lambda>yr1.
       Inr \<lparr>z_sections = interpolate sd (z_tip c) (z_root c),
            x_te = interpolate sd xt0 xr0,
            x_le = interpolate sd xt1 xr1,
            y_coords = [interpolate sd yt0 yr0, interpolate sd yt1 yr1]\<rparr>)))))))))"

text \<open>The three grids and the row counter of the fill loop.\<close>

record grids =
  X :: "real list list"
  Y :: "real list list"
  Z :: "real list list"
  row :: nat

text \<open>
  The body of the inner loop:
  \<^verbatim>\<open>
  X[row,:] = numpy.linspace(x_te[k], x_le[k], nX)
  Y[row,:] = numpy.ones(nX)*y_coords[j,k]
  Z[row,:] = numpy.ones(nX)*z_sections[k]
  row += 1
  \<close>
\<close>

definition fill_row :: "ffd_config \<Rightarrow> sections \<Rightarrow> nat \<Rightarrow> nat \<Rightarrow> grids \<Rightarrow> error + grids" where
  "fill_row c sec k j s =
     bnd (getitem (x_te sec) k) (\<lambda>a.
     bnd (getitem (x_le sec) k) (\<lambda>b.
     bnd (linspace a b (nX c)) (\<lambda>xs.
     bnd (setrow (X s) (row s) xs) (\<lambda>X'.
     bnd (ones (nX c)) (\<lambda>o1.
     bnd (getitem2 (y_coords sec) j k) (\<lambda>y.
     bnd (setrow (Y s) (row s) (map (\<lambda>v. v * y) o1)) (\<lambda>Y'.
     bnd (ones (nX c)) (\<lambda>o2.
     bnd (getitem (z_sections sec) k) (\<lambda>z.
     bnd (setrow (Z s) (row s) (map (\<lambda>v. v * z) o2)) (\<lambda>Z'.
       Inr \<lparr>X = X', Y = Y', Z = Z', row = row s + 1\<rparr>))))))))))"

text \<open>Lines 19 to 35: the sections, the three arrays of zeros and the nested loop.\<close>

definition compute_grid :: "ffd_config \<Rightarrow> error + grids" where
  "compute_grid c =
     bnd (compute_sections c) (\<lambda>sec.
     bnd (zeros (nY c * nZ c) (nX c)) (\<lambda>X0.
     bnd (zeros (nY c * nZ c) (nX c)) (\<lambda>Y0.
     bnd (zeros (nY c * nZ c) (nX c)) (\<lambda>Z0.
       for_each (py_range (nZ c))
         (\<lambda>k. for_each (py_range (nY c)) (\<lambda>j. fill_row c sec k j))
         \<lparr>X = X0, Y = Y0, Z = Z0, row = 0\<rparr>))))"

text \<open>
  Lines 38 to 46. The text written to the file is accumulated in order:
  \<^verbatim>\<open>
  f.write('\t\t1\n')
  f.write('\t\t%d\t\t%d\t\t%d\n' % (nX, nY, nZ))
  for set in [X,Y,Z]:
      for row in set:
          vals = tuple(row)
          f.write('\t%3.8f\t%3.8f\t%3.8f\t%3.8f\t%3.8f\t%3.8f\n' % vals)
  \<close>
\<close>

definition header :: "ffd_config \<Rightarrow> string" where
  "header c = [TAB, TAB] @ ''1'' @ [NL]
     @ [TAB, TAB] @ format_d (nX c) @ [TAB, TAB] @ format_d (nY c)
     @ [TAB, TAB] @ format_d (nZ c) @ [NL]"

definition write_rows :: "real list list \<Rightarrow> string \<Rightarrow> error + string" where
  "write_rows grid f = for_each grid (\<lambda>r f'. bnd (format_row r) (\<lambda>line. Inr (f' @ line))) f"

definition write_file :: "ffd_config \<Rightarrow> grids \<Rightarrow> error + string" where
  "write_file c g = for_each [X g, Y g, Z g] write_rows (header c)"

text \<open>
  The file system is a map from file names to contents. \<^verbatim>\<open>open(filename, 'w')\<close>
  creates or truncates the file, so its final content is what the script wrote. When an
  exception ends the script, only the exception is reported here.
\<close>

type_synonym filesystem = "string \<rightharpoonup> string"

definition filename :: string where
  "filename = ''ffd.xyz''"

definition simple_ffd :: "ffd_config \<Rightarrow> filesystem \<Rightarrow> error + filesystem" where
  "simple_ffd c fs =
     bnd (compute_grid c) (\<lambda>g.
     bnd (write_file c g) (\<lambda>content. Inr (fs(filename \<mapsto> content))))"

section \<open>simple\_ffd.py: the spanwise stations in double precision\<close>

text \<open>
  The script computes in IEEE double precision. Where a property depends on rounding, lines
  19 and 20 are taken with every operation rounding its exact result. \<open>f64\<close> rounds a real
  number to the nearest number with a significand of 53 bits, ties to even; the exponent
  is not bounded, so overflow and gradual underflow are left out. The power function is
  taken as correctly rounded, and the constants of the script as the doubles nearest to
  them.
\<close>

definition f64 :: "real \<Rightarrow> real" where
  "f64 x = (if x = 0 then 0
            else let u = 2 powr (real_of_int \<lfloor>log 2 \<bar>x\<bar>\<rfloor> - 52)
                 in sgn x * (real_of_int (round_half_even (\<bar>x\<bar> / u)) * u))"

text \<open>\<^verbatim>\<open>numpy.linspace\<close> as above, with \<^verbatim>\<open>delta\<close>, \<^verbatim>\<open>step\<close>, the products and the sums rounded.\<close>

definition linspace_f64 :: "real \<Rightarrow> real \<Rightarrow> int \<Rightarrow> error + real list" where
  "linspace_f64 start stop num =
     (if num < 0 then Inl ValueError
      else
        let n = nat num;
            delta = f64 (stop - start);
            y = map (\<lambda>i. f64 ((if 0 < num - 1
                                 then f64 (real i * f64 (delta / real_of_int (num - 1)))
                                 else f64 (real i * delta)) + start)) [0..<n]
        in Inr (if 1 < num then y[n - 1 := stop] else y))"

text \<open>\<^verbatim>\<open>span_dist = numpy.linspace(0, 1, nZ)**0.8\<close>\<close>

definition span_dist_f64 :: "ffd_config \<Rightarrow> error + real list" where
  "span_dist_f64 c =
     bnd (linspace_f64 0 1 (nZ c)) (\<lambda>t. Inr (map (\<lambda>x. f64 (x powr f64 (span_exponent c))) t))"

text \<open>\<^verbatim>\<open>z_sections = span_dist*(z_tip - z_root) + z_root\<close>\<close>

definition z_sections_f64 :: "ffd_config \<Rightarrow> error + real list" where
  "z_sections_f64 c =
     bnd (span_dist_f64 c) (\<lambda>sd.
       Inr (map (\<lambda>t. f64 (f64 (t * f64 (f64 (z_tip c) - f64 (z_root c))) + f64 (z_root c))) sd))"

text \<open>\<^verbatim>\<open>z_sections[k]\<close>\<close>

definition z_station_f64 :: "ffd_config \<Rightarrow> nat \<Rightarrow> error + real" where
  "z_station_f64 c k = bnd (z_sections_f64 c) (\<lambda>zs. getitem zs k)"

section \<open>Closed forms\<close>

text \<open>
  The functions of this section are not in the source. They name the values that the
  statements below attribute to the script: the samples of a linear spacing, the
  spanwise parameter and the interpolated sections, and the state of the fill loop after
  a number of rows.
\<close>

definition linear_samples :: "real \<Rightarrow> real \<Rightarrow> nat \<Rightarrow> real list" where
  "linear_samples a b n = map (\<lambda>i. a + real i * (b - a) / (real n - 1)) [0..<n]"

definition t_param :: "ffd_config \<Rightarrow> nat \<Rightarrow> real" where
  "t_param c k = (real k / (real_of_int (nZ c) - 1)) powr span_exponent c"

definition station :: "ffd_config \<Rightarrow> real \<Rightarrow> real \<Rightarrow> nat \<Rightarrow> real" where
  "station c tip_v root_v k = t_param c k * (tip_v - root_v) + root_v"

definition sections_of :: "ffd_config \<Rightarrow> sections" where
  "sections_of c =
     \<lparr>z_sections = map (station c (z_tip c) (z_root c)) [0..<nat (nZ c)],
      x_te = map (station c (x_tip_range c ! 0) (x_root_range c ! 0)) [0..<nat (nZ c)],
      x_le = map (station c (x_tip_range c ! 1) (x_root_range c ! 1)) [0..<nat (nZ c)],
      y_coords = [map (station c (y_tip_range c ! 0) (y_root_range c ! 0)) [0..<nat (nZ c)],
                  map (station c (y_tip_range c ! 1) (y_root_range c ! 1)) [0..<nat (nZ c)]]\<rparr>"

definition filled :: "ffd_config \<Rightarrow> sections \<Rightarrow> nat \<Rightarrow> grids" where
  "filled c sec n =
     \<lparr>X = map (\<lambda>r. if r < n
                    then linear_samples (x_te sec ! (r div nat (nY c))) (x_le sec ! (r div nat (nY c)))
                           (nat (nX c))
                    else replicate (nat (nX c)) 0) [0..<nat (nY c * nZ c)],
      Y = map (\<lambda>r. if r < n
                    then replicate (nat (nX c)) (y_coords sec ! (r mod nat (nY c)) ! (r div nat (nY c)))
                    else replicate (nat (nX c)) 0) [0..<nat (nY c * nZ c)],
      Z = map (\<lambda>r. if r < n
                    then replicate (nat (nX c)) (z_sections sec ! (r div nat (nY c)))
                    else replicate (nat (nX c)) 0) [0..<nat (nY c * nZ c)],
      row = n\<rparr>"

text \<open>Every range has the two elements that the script reads.\<close>

definition ranges_ok :: "ffd_config \<Rightarrow> bool" where
  "ranges_ok c \<longleftrightarrow> 2 \<le> length (x_tip_range c) \<and> 2 \<le> length (x_root_range c)
     \<and> 2 \<le> length (y_tip_range c) \<and> 2 \<le> length (y_root_range c)"

text \<open>One physical line per row, and the lines of a grid in order.\<close>

definition line_of :: "real list \<Rightarrow> string" where
  "line_of r = concat (map (\<lambda>v. TAB # format_f8 v) r) @ [NL]"

definition block_of :: "real list list \<Rightarrow> string" where
  "block_of grid = concat (map line_of grid)"

section \<open>Properties of the KS aggregation\<close>

lemma np_max_Inr: "g \<noteq> [] \<Longrightarrow> np_max g = Inr (Max (set g))"
  by (simp add: np_max_def)

lemma ksAgg_value:
  assumes "g \<noteq> []" and "rho \<noteq> 0"
  shows "ksAgg g rho =
    Inr (Max (set g) + 1 / rho * ln (sum_list (map (\<lambda>gi. exp (rho * (gi - Max (set g)))) g)))"
  using assms by (simp add: ksAgg_def bnd_def np_max_def)

lemma sum_list_exp_pos:
  "g \<noteq> [] \<Longrightarrow> 0 < sum_list (map (\<lambda>gi. exp (f gi :: real)) g)"
proof (induction g)
  case Nil
  then show ?case by simp
next
  case (Cons a g)
  show ?case
  proof (cases "g = []")
    case True
    then show ?thesis by simp
  next
    case False
    with Cons.IH have "0 < sum_list (map (\<lambda>gi. exp (f gi)) g)" by simp
    moreover have "0 < exp (f a)" by simp
    ultimately show ?thesis by (simp add: add_pos_pos)
  qed
qed

lemma sum_list_exp_nonneg: "0 \<le> sum_list (map (\<lambda>gi. exp (f gi :: real)) g)"
  by (induction g) simp_all

lemma sum_list_exp_ge_member:
  "x \<in> set g \<Longrightarrow>
     exp (rho * (x - m)) \<le> sum_list (map (\<lambda>gi. exp (rho * (gi - m :: real))) g)"
proof (induction g)
  case Nil
  then show ?case by simp
next
  case (Cons a g)
  have nn: "0 \<le> sum_list (map (\<lambda>gi. exp (rho * (gi - m))) g)"
    by (rule sum_list_exp_nonneg)
  have pa: "0 \<le> exp (rho * (a - m))" by simp
  from Cons.prems consider "x = a" | "x \<in> set g" by auto
  then show ?case
  proof cases
    case 1
    with nn show ?thesis by simp
  next
    case 2
    with Cons.IH have "exp (rho * (x - m)) \<le> sum_list (map (\<lambda>gi. exp (rho * (gi - m))) g)"
      by simp
    with pa show ?thesis by (simp add: add_increasing)
  qed
qed

lemma shifted_sum_ge_one:
  assumes "g \<noteq> ([] :: real list)"
  shows "1 \<le> sum_list (map (\<lambda>gi. exp (rho * (gi - Max (set g)))) g)"
proof -
  from assms have "Max (set g) \<in> set g" by simp
  then have "exp (rho * (Max (set g) - Max (set g)))
      \<le> sum_list (map (\<lambda>gi. exp (rho * (gi - Max (set g)))) g)"
    by (rule sum_list_exp_ge_member)
  then show ?thesis by simp
qed

lemma sum_list_exp_shift:
  "sum_list (map (\<lambda>gi. exp (rho * gi)) g)
     = exp (rho * m) * sum_list (map (\<lambda>gi. exp (rho * (gi - m))) (g :: real list))"
proof (induction g)
  case Nil
  then show ?case by simp
next
  case (Cons a g)
  have "exp (rho * a) = exp (rho * m) * exp (rho * (a - m))"
    by (simp add: exp_add [symmetric] algebra_simps)
  with Cons.IH show ?case by (simp add: algebra_simps)
qed

lemma Max_replicate: "0 < n \<Longrightarrow> Max (set (replicate n (c :: real))) = c"
  by (simp add: set_replicate_conv_if)

lemma sum_list_replicate_const: "sum_list (map (\<lambda>_. v) (replicate n c)) = real n * (v :: real)"
  by (induction n) (simp_all add: algebra_simps)

text \<open>
  C7: for a nonempty vector \<open>g\<close> and \<open>rho > 0\<close> the aggregate is defined and at least
  \<open>max g\<close>; for a constant vector of length \<open>n\<close> it is \<open>c + ln n / rho\<close>.
\<close>

theorem ksAgg_smooth_max:
  "(g \<noteq> [] \<and> 0 < rho \<longrightarrow> (\<exists>r. ksAgg g rho = Inr r \<and> Max (set g) \<le> r)) \<and>
   (0 < n \<and> 0 < rho \<longrightarrow> ksAgg (replicate n c) rho = Inr (c + ln (real n) / rho))"
proof (intro conjI impI)
  assume a: "g \<noteq> [] \<and> 0 < rho"
  then have g: "g \<noteq> []" and rho: "0 < rho" by simp_all
  let ?s = "sum_list (map (\<lambda>gi. exp (rho * (gi - Max (set g)))) g)"
  have "1 \<le> ?s" using g by (rule shifted_sum_ge_one)
  then have "0 \<le> ln ?s" by simp
  with rho have "0 \<le> 1 / rho * ln ?s" by simp
  then have "Max (set g) \<le> Max (set g) + 1 / rho * ln ?s" by simp
  moreover have "ksAgg g rho = Inr (Max (set g) + 1 / rho * ln ?s)"
    using g rho by (simp add: ksAgg_value)
  ultimately show "\<exists>r. ksAgg g rho = Inr r \<and> Max (set g) \<le> r" by blast
next
  assume a: "0 < n \<and> 0 < rho"
  then have n: "0 < n" and rho: "0 < rho" by simp_all
  from n have ne: "replicate n c \<noteq> []" by simp
  have "ksAgg (replicate n c) rho = Inr (c + 1 / rho * ln (real n))"
    using n rho by (simp add: ksAgg_value [OF ne] Max_replicate sum_list_replicate)
  then show "ksAgg (replicate n c) rho = Inr (c + ln (real n) / rho)" by simp
qed

theorem ksAgg_smooth_max_witness:
  "([1, 3, 2] \<noteq> ([] :: real list) \<and> (0::real) < 2
      \<and> (\<exists>r. ksAgg [1, 3, 2] 2 = Inr r \<and> 3 \<le> r))
   \<and> ((0::nat) < 3 \<and> (0::real) < 2 \<and> ksAgg [5, 5, 5] 2 = Inr (5 + ln 3 / 2))"
proof -
  have hyp: "[1, 3, 2] \<noteq> ([] :: real list) \<and> (0::real) < 2" "(0::nat) < 3 \<and> (0::real) < 2"
    by simp_all
  have mx: "Max (set [1, 3, 2 :: real]) = 3" by simp
  have rp: "replicate 3 (5::real) = [5, 5, 5]" by (simp add: numeral_3_eq_3)
  from ksAgg_smooth_max [of "[1, 3, 2]" 2 3 5] hyp
  have "\<exists>r. ksAgg [1, 3, 2] 2 = Inr r \<and> Max (set [1, 3, 2]) \<le> r"
    and "ksAgg (replicate 3 5) 2 = Inr (5 + ln (real 3) / 2)" by blast+
  then have "\<exists>r. ksAgg [1, 3, 2] 2 = Inr r \<and> 3 \<le> r"
    and "ksAgg [5, 5, 5] 2 = Inr (5 + ln 3 / 2)" by (simp_all only: mx rp) simp_all
  with hyp show ?thesis by blast
qed

text \<open>
  C9: over the reals, the stabilised form computed by \<open>ksAgg\<close> equals the naive
  log-sum-exp formula, for every nonempty \<open>g\<close> and every \<open>rho > 0\<close>.
\<close>

theorem ksAgg_refines_naive:
  assumes "g \<noteq> []" and "0 < rho"
  shows "ksAgg g rho = Inr (ks_naive g rho)"
proof -
  let ?m = "Max (set g)"
  let ?s = "sum_list (map (\<lambda>gi. exp (rho * (gi - ?m))) g)"
  have spos: "0 < ?s" using assms(1) by (rule sum_list_exp_pos)
  have "sum_list (map (\<lambda>gi. exp (rho * gi)) g) = exp (rho * ?m) * ?s"
    by (rule sum_list_exp_shift)
  then have "ln (sum_list (map (\<lambda>gi. exp (rho * gi)) g)) = rho * ?m + ln ?s"
    using spos by (simp add: ln_mult)
  then have "ks_naive g rho = ?m + 1 / rho * ln ?s"
    using assms(2) by (simp add: ks_naive_def algebra_simps)
  then show ?thesis using assms by (simp add: ksAgg_value)
qed

theorem ksAgg_refines_naive_witness:
  "[0, 0] \<noteq> ([] :: real list) \<and> (0::real) < 1 \<and> ksAgg [0, 0] 1 = Inr (ks_naive [0, 0] 1)"
  using ksAgg_refines_naive [of "[0, 0]" 1] by simp

section \<open>Properties of the argument normalisation\<close>

text \<open>
  C10: after the normalisation block, \<open>zeroLift\<close> holds exactly when \<open>cl = 0\<close>; a
  requested \<open>zeroLift\<close> with a nonzero \<open>cl\<close> forces \<open>cl\<close> to 0, \<open>cl = 0\<close> without
  \<open>zeroLift\<close> forces \<open>zeroLift\<close> to True, and no other field changes.
\<close>

theorem normalize_args_invariant:
  "(zeroLift (normalize_args a) \<longleftrightarrow> cl (normalize_args a) = 0) \<and>
   (zeroLift a \<and> cl a \<noteq> 0 \<longrightarrow> normalize_args a = a\<lparr>cl := 0\<rparr>) \<and>
   (\<not> zeroLift a \<and> cl a = 0 \<longrightarrow> normalize_args a = a\<lparr>zeroLift := True\<rparr>) \<and>
   mach (normalize_args a) = mach a \<and> output (normalize_args a) = output a \<and>
   alt (normalize_args a) = alt a \<and> preTrim (normalize_args a) = preTrim a \<and>
   volCon (normalize_args a) = volCon a \<and> volUpper (normalize_args a) = volUpper a \<and>
   volLower (normalize_args a) = volLower a \<and> tcMin (normalize_args a) = tcMin a \<and>
   relThickLower (normalize_args a) = relThickLower a \<and>
   absThickLower (normalize_args a) = absThickLower a"
  by (simp add: normalize_args_def)

theorem normalize_args_invariant_witness:
  "zeroLift (default_args\<lparr>zeroLift := True\<rparr>) \<and> cl (default_args\<lparr>zeroLift := True\<rparr>) \<noteq> 0 \<and>
   normalize_args (default_args\<lparr>zeroLift := True\<rparr>) = default_args\<lparr>zeroLift := True, cl := 0\<rparr> \<and>
   \<not> zeroLift (default_args\<lparr>cl := 0\<rparr>) \<and> cl (default_args\<lparr>cl := 0\<rparr>) = 0 \<and>
   normalize_args (default_args\<lparr>cl := 0\<rparr>) = default_args\<lparr>cl := 0, zeroLift := True\<rparr>"
  using normalize_args_invariant [of "default_args\<lparr>zeroLift := True\<rparr>"]
    normalize_args_invariant [of "default_args\<lparr>cl := 0\<rparr>"]
  by (simp add: default_args_def)

section \<open>Properties of the lattice generator\<close>

subsection \<open>Linear spacing and the spanwise distribution\<close>

lemma linspace_samples:
  assumes "0 \<le> num"
  shows "linspace a b num = Inr (linear_samples a b (nat num))"
proof -
  let ?n = "nat num"
  let ?y = "map (\<lambda>i. (if 0 < num - 1 then real i * ((b - a) / real_of_int (num - 1))
                           else real i * (b - a)) + a) [0..<?n]"
  let ?r = "if 1 < num then ?y[?n - 1 := b] else ?y"
  have H: "?r = linear_samples a b ?n"
  proof (rule nth_equalityI)
    show "length ?r = length (linear_samples a b ?n)" by (simp add: linear_samples_def)
  next
    fix i assume "i < length ?r"
    then have i: "i < ?n" by (simp split: if_splits)
    have rn: "real ?n = real_of_int num" using assms by simp
    show "?r ! i = linear_samples a b ?n ! i"
    proof (cases "1 < num")
      case False
      with assms i have "i = 0" by linarith
      with False i show ?thesis by (simp add: linear_samples_def)
    next
      case True
      show ?thesis
      proof (cases "i = ?n - 1")
        case True
        with \<open>1 < num\<close> i have "real i = real_of_int num - 1" by simp
        with \<open>1 < num\<close> True i rn show ?thesis by (simp add: linear_samples_def)
      next
        case False
        with \<open>1 < num\<close> i rn show ?thesis by (simp add: linear_samples_def)
      qed
    qed
  qed
  have nn: "\<not> num < 0" using assms by simp
  show ?thesis unfolding linspace_def Let_def by (simp only: nn if_False H)
qed

lemma linspace_negative: "num < 0 \<Longrightarrow> linspace a b num = Inl ValueError"
  by (simp add: linspace_def)

lemma span_dist_value:
  assumes "0 \<le> nZ c"
  shows "span_dist c = Inr (map (t_param c) [0..<nat (nZ c)])"
  using assms
  by (simp add: span_dist_def linspace_samples bnd_def linear_samples_def t_param_def)


lemma t_param_mono:
  assumes "2 \<le> nZ c" and "0 \<le> span_exponent c" and "i \<le> j"
  shows "t_param c i \<le> t_param c j"
proof -
  have d: "0 < real_of_int (nZ c) - 1" using assms(1) by simp
  have "real i / (real_of_int (nZ c) - 1) \<le> real j / (real_of_int (nZ c) - 1)"
    using d assms(3) by (simp add: divide_right_mono)
  moreover have "0 \<le> real i / (real_of_int (nZ c) - 1)" using d by simp
  ultimately show ?thesis unfolding t_param_def using assms(2) by (rule_tac powr_mono2)
qed

lemma t_param_strict_mono:
  assumes "2 \<le> nZ c" and "0 < span_exponent c" and "i < j"
  shows "t_param c i < t_param c j"
proof -
  have d: "0 < real_of_int (nZ c) - 1" using assms(1) by simp
  have "real i / (real_of_int (nZ c) - 1) < real j / (real_of_int (nZ c) - 1)"
    using d assms(3) by (simp add: divide_strict_right_mono)
  moreover have "0 \<le> real i / (real_of_int (nZ c) - 1)" using d by simp
  ultimately show ?thesis unfolding t_param_def using assms(2) by (rule_tac powr_less_mono2)
qed

lemma t_param_first: "t_param c 0 = 0"
  by (simp add: t_param_def)

lemma t_param_last:
  assumes "2 \<le> nZ c"
  shows "t_param c (nat (nZ c) - 1) = 1"
proof -
  have "real (nat (nZ c) - 1) = real_of_int (nZ c) - 1" using assms by simp
  moreover have "real_of_int (nZ c) - 1 \<noteq> 0" using assms by simp
  ultimately show ?thesis by (simp add: t_param_def)
qed

text \<open>
  C3: for \<open>nZ \<ge> 2\<close> and a positive exponent, the spanwise parameters are
  \<open>t\<^sub>k = (k / (nZ - 1))\<^sup>e\<close> for \<open>k = 0, \<dots>, nZ - 1\<close>, the sequence is non-decreasing,
  its first element is 0 and its last element is 1.
\<close>

theorem span_dist_monotone:
  assumes "2 \<le> nZ c" and "0 < span_exponent c"
  shows "\<exists>ts. span_dist c = Inr ts \<and> length ts = nat (nZ c) \<and>
           (\<forall>k < nat (nZ c). ts ! k = (real k / (real_of_int (nZ c) - 1)) powr span_exponent c) \<and>
           sorted ts \<and> ts ! 0 = 0 \<and> ts ! (nat (nZ c) - 1) = 1"
proof -
  let ?ts = "map (t_param c) [0..<nat (nZ c)]"
  have v: "span_dist c = Inr ?ts" using assms(1) by (simp add: span_dist_value)
  have len: "length ?ts = nat (nZ c)" by simp
  have nth: "\<forall>k < nat (nZ c). ?ts ! k = (real k / (real_of_int (nZ c) - 1)) powr span_exponent c"
    by (simp add: t_param_def)
  have srt: "sorted ?ts"
    unfolding sorted_iff_nth_mono using assms by (simp add: t_param_mono)
  have first: "?ts ! 0 = 0" using assms(1) by (simp add: t_param_first)
  have last: "?ts ! (nat (nZ c) - 1) = 1" using assms(1) t_param_last [OF assms(1)] by simp
  from v len nth srt first last show ?thesis by blast
qed

theorem span_dist_monotone_witness:
  "2 \<le> nZ shipped_config \<and> 0 < span_exponent shipped_config \<and>
   (\<exists>ts. span_dist shipped_config = Inr ts \<and> length ts = 8 \<and> sorted ts \<and>
      ts ! 0 = 0 \<and> ts ! 7 = 1)"
  using span_dist_monotone [of shipped_config] by (simp add: shipped_config_def) blast

lemma compute_sections_value:
  assumes "0 \<le> nZ c" and "2 \<le> length (x_tip_range c)" and "2 \<le> length (x_root_range c)"
    and "2 \<le> length (y_tip_range c)" and "2 \<le> length (y_root_range c)"
  shows "compute_sections c = Inr (sections_of c)"
  using assms
  by (auto simp add: compute_sections_def span_dist_value bnd_def getitem_def interpolate_def
      sections_of_def station_def)

lemma compute_sections_negative:
  "nZ c < 0 \<Longrightarrow> compute_sections c = Inl ValueError"
  by (simp add: compute_sections_def span_dist_def linspace_negative bnd_def)

lemma compute_sections_short:
  assumes "0 \<le> nZ c"
    and "length (x_tip_range c) < 2 \<or> length (x_root_range c) < 2
       \<or> length (y_tip_range c) < 2 \<or> length (y_root_range c) < 2"
  shows "compute_sections c = Inl IndexError"
  using assms
  by (auto simp add: compute_sections_def span_dist_value bnd_def getitem_def)

subsection \<open>The fill loop\<close>

lemma bnd_Inr [simp]: "bnd (Inr x) f = f x"
  by (simp add: bnd_def)

lemma bnd_Inl [simp]: "bnd (Inl e) f = Inl e"
  by (simp add: bnd_def)

lemma for_each_append:
  "for_each (xs @ ys) f s = bnd (for_each xs f s) (for_each ys f)"
proof (induction xs arbitrary: s)
  case Nil
  then show ?case by simp
next
  case (Cons x xs)
  show ?case
  proof (cases "f x s")
    case (Inl e)
    then show ?thesis by simp
  next
    case (Inr s')
    with Cons.IH show ?thesis by simp
  qed
qed

lemma for_each_single: "for_each [x] f = f x"
proof (rule ext)
  fix s
  show "for_each [x] f s = f x s" by (cases "f x s") simp_all
qed

lemma for_each_upt_Suc:
  "for_each [0..<Suc n] f s = bnd (for_each [0..<n] f s) (f n)"
  by (simp add: for_each_append for_each_single)

lemma length_linear_samples [simp]: "length (linear_samples a b n) = n"
  by (simp add: linear_samples_def)

lemma filled_lengths [simp]:
  "length (X (filled c sec n)) = nat (nY c * nZ c)"
  "length (Y (filled c sec n)) = nat (nY c * nZ c)"
  "length (Z (filled c sec n)) = nat (nY c * nZ c)"
  "row (filled c sec n) = n"
  by (simp_all add: filled_def)

lemma fill_row_filled:
  assumes nx: "0 \<le> nX c"
    and k: "k < length (x_te sec)" "k < length (x_le sec)" "k < length (z_sections sec)"
    and j: "j < length (y_coords sec)" "k < length (y_coords sec ! j)"
    and n: "n = k * nat (nY c) + j" "j < nat (nY c)" "n < nat (nY c * nZ c)"
  shows "fill_row c sec k j (filled c sec n) = Inr (filled c sec (Suc n))"
proof -
  have dv: "n div nat (nY c) = k" and md: "n mod nat (nY c) = j"
    using n by simp_all
  let ?N = "nat (nY c * nZ c)"
  have X: "(X (filled c sec n))[n := linear_samples (x_te sec ! k) (x_le sec ! k) (nat (nX c))]
      = X (filled c sec (Suc n))"
    by (rule nth_equalityI) (auto simp add: filled_def nth_list_update dv less_Suc_eq)
  have Y: "(Y (filled c sec n))[n := replicate (nat (nX c)) (y_coords sec ! j ! k)]
      = Y (filled c sec (Suc n))"
    by (rule nth_equalityI) (auto simp add: filled_def nth_list_update dv md less_Suc_eq)
  have Z: "(Z (filled c sec n))[n := replicate (nat (nX c)) (z_sections sec ! k)]
      = Z (filled c sec (Suc n))"
    by (rule nth_equalityI) (auto simp add: filled_def nth_list_update dv less_Suc_eq)
  have "fill_row c sec k j (filled c sec n)
      = Inr \<lparr>X = X (filled c sec (Suc n)), Y = Y (filled c sec (Suc n)),
             Z = Z (filled c sec (Suc n)), row = Suc n\<rparr>"
    using nx k j n(3)
    by (simp add: fill_row_def getitem_def getitem2_def linspace_samples setrow_def ones_def X Y Z)
  then show ?thesis by (simp add: filled_def)
qed


lemma sections_of_lengths [simp]:
  "length (x_te (sections_of c)) = nat (nZ c)"
  "length (x_le (sections_of c)) = nat (nZ c)"
  "length (z_sections (sections_of c)) = nat (nZ c)"
  "length (y_coords (sections_of c)) = 2"
  "length (y_coords (sections_of c) ! 0) = nat (nZ c)"
  "length (y_coords (sections_of c) ! Suc 0) = nat (nZ c)"
  by (simp_all add: sections_of_def)

lemma row_index_bound:
  fixes k j a b :: nat
  assumes "k < a" and "j < b"
  shows "k * b + j < a * b"
proof -
  have "k * b + j < k * b + b" using assms(2) by simp
  also have "\<dots> = Suc k * b" by simp
  also have "\<dots> \<le> a * b" using assms(1) by (intro mult_le_mono1) simp
  finally show ?thesis .
qed

lemma nat_rows:
  assumes "0 \<le> nY c" and "0 \<le> nZ c"
  shows "nat (nY c * nZ c) = nat (nZ c) * nat (nY c)"
  using assms by (simp add: nat_mult_distrib mult.commute)

lemma inner_loop_filled:
  assumes nx: "0 \<le> nX c" and ny: "0 \<le> nY c" and k: "k < nat (nZ c)"
    and m: "m \<le> nat (nY c)" "m \<le> 2"
  shows "for_each [0..<m] (fill_row c (sections_of c) k) (filled c (sections_of c) (k * nat (nY c)))
           = Inr (filled c (sections_of c) (k * nat (nY c) + m))"
  using m
proof (induction m)
  case 0
  then show ?case by simp
next
  case (Suc m)
  from k have nz: "0 \<le> nZ c" by simp
  have jl: "m < length (y_coords (sections_of c))" using Suc.prems by simp
  have kl: "k < length (y_coords (sections_of c) ! m)"
    using Suc.prems k by (cases m) simp_all
  have bound: "k * nat (nY c) + m < nat (nY c * nZ c)"
    using Suc.prems k by (simp add: nat_rows [OF ny nz] row_index_bound)
  have step: "fill_row c (sections_of c) k m (filled c (sections_of c) (k * nat (nY c) + m))
      = Inr (filled c (sections_of c) (Suc (k * nat (nY c) + m)))"
    using nx k jl kl Suc.prems bound by (intro fill_row_filled) simp_all
  from Suc.IH Suc.prems
  have "for_each [0..<m] (fill_row c (sections_of c) k) (filled c (sections_of c) (k * nat (nY c)))
      = Inr (filled c (sections_of c) (k * nat (nY c) + m))" by simp
  then show ?case by (simp only: for_each_upt_Suc bnd_Inr step add_Suc_right)
qed

lemma outer_loop_filled:
  assumes nx: "0 \<le> nX c" and ny: "0 \<le> nY c" "nY c \<le> 2" and K: "K \<le> nat (nZ c)"
  shows "for_each [0..<K] (\<lambda>k. for_each (py_range (nY c)) (fill_row c (sections_of c) k))
            (filled c (sections_of c) 0)
           = Inr (filled c (sections_of c) (K * nat (nY c)))"
  using K
proof (induction K)
  case 0
  then show ?case by simp
next
  case (Suc K)
  have m2: "nat (nY c) \<le> 2" using ny by simp
  from Suc.prems have k: "K < nat (nZ c)" by simp
  have inner: "for_each (py_range (nY c)) (fill_row c (sections_of c) K)
        (filled c (sections_of c) (K * nat (nY c)))
      = Inr (filled c (sections_of c) (Suc K * nat (nY c)))"
    using inner_loop_filled [OF nx ny(1) k le_refl m2] by (simp add: py_range_def add.commute)
  from Suc.IH Suc.prems
  have "for_each [0..<K] (\<lambda>k. for_each (py_range (nY c)) (fill_row c (sections_of c) k))
            (filled c (sections_of c) 0)
      = Inr (filled c (sections_of c) (K * nat (nY c)))" by simp
  then show ?case by (simp only: for_each_upt_Suc bnd_Inr inner)
qed

lemma filled_zero:
  "filled c sec 0 = \<lparr>X = replicate (nat (nY c * nZ c)) (replicate (nat (nX c)) 0),
      Y = replicate (nat (nY c * nZ c)) (replicate (nat (nX c)) 0),
      Z = replicate (nat (nY c * nZ c)) (replicate (nat (nX c)) 0), row = 0\<rparr>"
  by (simp add: filled_def map_replicate_const)

lemma compute_grid_loop:
  assumes "0 \<le> nZ c" and "ranges_ok c" and "0 \<le> nX c" and "0 \<le> nY c * nZ c"
  shows "compute_grid c =
     for_each (py_range (nZ c))
       (\<lambda>k. for_each (py_range (nY c)) (fill_row c (sections_of c) k))
       (filled c (sections_of c) 0)"
  using assms
  by (simp add: compute_grid_def compute_sections_value ranges_ok_def zeros_def filled_zero)

lemma compute_grid_value:
  assumes nz: "0 \<le> nZ c" and r: "ranges_ok c" and nx: "0 \<le> nX c" and ny: "0 \<le> nY c * nZ c"
    and lv: "nY c \<le> 2 \<or> nZ c = 0"
  shows "compute_grid c = Inr (filled c (sections_of c) (nat (nY c * nZ c)))"
proof (cases "nZ c = 0")
  case True
  then show ?thesis by (simp add: compute_grid_loop [OF nz r nx ny] py_range_def)
next
  case False
  with nz have pos: "0 < nZ c" by simp
  with ny have ny0: "0 \<le> nY c" by (simp add: zero_le_mult_iff)
  from False lv have ny2: "nY c \<le> 2" by simp
  show ?thesis
    using outer_loop_filled [OF nx ny0 ny2 le_refl]
    by (simp add: compute_grid_loop [OF nz r nx ny] py_range_def nat_rows [OF ny0 nz])
qed

lemma fill_row_level_error:
  assumes nx: "0 \<le> nX c" and k: "k < nat (nZ c)" and n: "n < nat (nY c * nZ c)"
  shows "fill_row c (sections_of c) k 2 (filled c (sections_of c) n) = Inl IndexError"
  using assms
  by (simp add: fill_row_def getitem_def getitem2_def linspace_samples setrow_def ones_def)

lemma compute_grid_levels:
  assumes nz: "1 \<le> nZ c" and r: "ranges_ok c" and nx: "0 \<le> nX c" and ny: "3 \<le> nY c"
  shows "compute_grid c = Inl IndexError"
proof -
  have nz0: "0 \<le> nZ c" and ny0: "0 \<le> nY c" using nz ny by simp_all
  have prod: "0 \<le> nY c * nZ c" using nz0 ny0 by simp
  have k0: "0 < nat (nZ c)" using nz by simp
  have rz: "py_range (nZ c) = 0 # [1..<nat (nZ c)]"
    using k0 by (simp add: py_range_def upt_conv_Cons)
  have ry: "py_range (nY c) = [0..<2] @ 2 # [3..<nat (nY c)]"
  proof -
    have "2 < nat (nY c)" using ny by simp
    then have "[2..<nat (nY c)] = 2 # [3..<nat (nY c)]"
      by (simp add: upt_conv_Cons numeral_3_eq_3 numeral_2_eq_2)
    moreover have "[0..<nat (nY c)] = [0..<2] @ [2..<nat (nY c)]"
      using \<open>2 < nat (nY c)\<close> by (metis less_imp_le_nat upt_add_eq_append zero_le le_add_diff_inverse)
    ultimately show ?thesis by (simp add: py_range_def)
  qed
  have two: "for_each [0..<2] (fill_row c (sections_of c) 0) (filled c (sections_of c) 0)
      = Inr (filled c (sections_of c) 2)"
  proof -
    have m: "2 \<le> nat (nY c)" using ny by simp
    show ?thesis using inner_loop_filled [OF nx ny0 k0 m le_refl] by (simp add: numeral_2_eq_2)
  qed
  have bound: "2 < nat (nY c * nZ c)"
  proof -
    have "3 * 1 \<le> nY c * nZ c" using ny nz by (intro mult_mono) simp_all
    then show ?thesis by simp
  qed
  have "for_each (py_range (nY c)) (fill_row c (sections_of c) 0) (filled c (sections_of c) 0)
      = Inl IndexError"
    by (simp only: ry for_each_append two bnd_Inr for_each.simps
        fill_row_level_error [OF nx k0 bound] bnd_Inl)
  then show ?thesis
    by (simp only: compute_grid_loop [OF nz0 r nx prod] rz for_each.simps bnd_Inl)
qed

lemma compute_sections_ranges:
  assumes "0 \<le> nZ c" and "\<not> ranges_ok c"
  shows "compute_sections c = Inl IndexError"
  using assms by (intro compute_sections_short) (auto simp add: ranges_ok_def)

lemma compute_grid_zeros_error:
  assumes "0 \<le> nZ c" and "ranges_ok c" and "nY c * nZ c < 0 \<or> nX c < 0"
  shows "compute_grid c = Inl ValueError"
  using assms
  by (simp add: compute_grid_def compute_sections_value ranges_ok_def zeros_def)

lemma compute_grid_cases:
  "compute_grid c =
     (if nZ c < 0 then Inl ValueError
      else if \<not> ranges_ok c then Inl IndexError
      else if nY c * nZ c < 0 \<or> nX c < 0 then Inl ValueError
      else if 3 \<le> nY c \<and> 1 \<le> nZ c then Inl IndexError
      else Inr (filled c (sections_of c) (nat (nY c * nZ c))))"
proof -
  consider (a) "nZ c < 0" | (b) "0 \<le> nZ c" "\<not> ranges_ok c"
    | (c) "0 \<le> nZ c" "ranges_ok c" "nY c * nZ c < 0 \<or> nX c < 0"
    | (d) "0 \<le> nZ c" "ranges_ok c" "0 \<le> nY c * nZ c" "0 \<le> nX c" "3 \<le> nY c \<and> 1 \<le> nZ c"
    | (e) "0 \<le> nZ c" "ranges_ok c" "0 \<le> nY c * nZ c" "0 \<le> nX c" "\<not> (3 \<le> nY c \<and> 1 \<le> nZ c)"
    by linarith
  then show ?thesis
  proof cases
    case a
    then show ?thesis by (simp add: compute_grid_def compute_sections_negative)
  next
    case b
    then show ?thesis by (simp add: compute_grid_def compute_sections_ranges)
  next
    case c
    then show ?thesis using compute_grid_zeros_error [of c] by auto
  next
    case d
    then have v: "compute_grid c = Inl IndexError" by (intro compute_grid_levels) simp_all
    from d have n: "\<not> nZ c < 0" "\<not> (nY c * nZ c < 0 \<or> nX c < 0)" by linarith+
    show ?thesis by (simp only: v n d(2) d(5) if_False if_True simp_thms)
  next
    case e
    then have lv: "nY c \<le> 2 \<or> nZ c = 0" by linarith
    have v: "compute_grid c = Inr (filled c (sections_of c) (nat (nY c * nZ c)))"
      using e(1) e(2) e(4) e(3) lv by (rule compute_grid_value)
    from e have n: "\<not> nZ c < 0" "\<not> (nY c * nZ c < 0 \<or> nX c < 0)" by linarith+
    show ?thesis by (simp only: v n e(2) e(5) if_False if_True simp_thms)
  qed
qed

subsection \<open>Writing the file\<close>

lemma format_row_line:
  "format_row r = (if length r = 6 then Inr (line_of r) else Inl TypeError)"
proof (cases "length r = 6")
  case False
  then show ?thesis by (simp add: format_row_def)
next
  case True
  then obtain a b c d e f where "r = [a, b, c, d, e, f]"
    by (auto simp add: numeral_eq_Suc length_Suc_conv)
  then show ?thesis by (simp add: format_row_def line_of_def)
qed

lemma write_rows_value:
  "write_rows grid f =
     (if \<forall>r \<in> set grid. length r = 6 then Inr (f @ block_of grid) else Inl TypeError)"
proof (induction grid arbitrary: f)
  case Nil
  then show ?case by (simp add: write_rows_def block_of_def)
next
  case (Cons r grid)
  have step: "write_rows (r # grid) f = bnd (format_row r) (\<lambda>line. write_rows grid (f @ line))"
    by (cases "format_row r") (simp_all add: write_rows_def)
  show ?case
  proof (cases "length r = 6")
    case False
    then show ?thesis by (simp add: step format_row_line)
  next
    case True
    then show ?thesis by (simp add: step format_row_line Cons.IH block_of_def)
  qed
qed

lemma write_file_value:
  "write_file c g =
     (if \<forall>r \<in> set (X g) \<union> set (Y g) \<union> set (Z g). length r = 6
      then Inr (header c @ block_of (X g) @ block_of (Y g) @ block_of (Z g))
      else Inl TypeError)"
  by (auto simp add: write_file_def write_rows_value)

lemma filled_rows_length:
  "r \<in> set (X (filled c sec n)) \<union> set (Y (filled c sec n)) \<union> set (Z (filled c sec n))
     \<Longrightarrow> length r = nat (nX c)"
  by (auto simp add: filled_def)

lemma filled_nonempty:
  "0 < nY c * nZ c \<Longrightarrow> X (filled c sec n) \<noteq> []"
  by (simp add: filled_def)

lemma filled_rows_six:
  assumes "0 \<le> nX c"
  shows "(\<forall>r \<in> set (X (filled c sec n)) \<union> set (Y (filled c sec n)) \<union> set (Z (filled c sec n)).
            length r = 6) \<longleftrightarrow> (nX c = 6 \<or> \<not> 0 < nY c * nZ c)"
proof (cases "0 < nY c * nZ c")
  case False
  then have "nat (nY c * nZ c) = 0" by simp
  then have "X (filled c sec n) = []" "Y (filled c sec n) = []" "Z (filled c sec n) = []"
    by (simp_all add: filled_def)
  with False show ?thesis by simp
next
  case True
  then have ne: "X (filled c sec n) \<noteq> []" by (rule filled_nonempty)
  show ?thesis
  proof
    assume all: "\<forall>r \<in> set (X (filled c sec n)) \<union> set (Y (filled c sec n))
        \<union> set (Z (filled c sec n)). length r = 6"
    from ne obtain r where r: "r \<in> set (X (filled c sec n))" by (cases "X (filled c sec n)") auto
    then have "length r = nat (nX c)" using filled_rows_length [of r c sec n] by simp
    moreover from all r have "length r = 6" by simp
    ultimately have "nat (nX c) = 6" by simp
    then have "nX c = 6" using assms by linarith
    then show "nX c = 6 \<or> \<not> 0 < nY c * nZ c" by simp
  next
    assume "nX c = 6 \<or> \<not> 0 < nY c * nZ c"
    with True have "nat (nX c) = 6" by simp
    then show "\<forall>r \<in> set (X (filled c sec n)) \<union> set (Y (filled c sec n))
        \<union> set (Z (filled c sec n)). length r = 6"
      using filled_rows_length [of _ c sec n] by simp
  qed
qed

lemma simple_ffd_cases:
  "simple_ffd c fs =
     (if nZ c < 0 then Inl ValueError
      else if \<not> ranges_ok c then Inl IndexError
      else if nY c * nZ c < 0 \<or> nX c < 0 then Inl ValueError
      else if 3 \<le> nY c \<and> 1 \<le> nZ c then Inl IndexError
      else if nX c \<noteq> 6 \<and> 0 < nY c * nZ c then Inl TypeError
      else Inr (fs(filename \<mapsto>
             header c @ block_of (X (filled c (sections_of c) (nat (nY c * nZ c))))
               @ block_of (Y (filled c (sections_of c) (nat (nY c * nZ c))))
               @ block_of (Z (filled c (sections_of c) (nat (nY c * nZ c)))))))"
proof -
  let ?g = "filled c (sections_of c) (nat (nY c * nZ c))"
  show ?thesis
  proof (cases "nZ c < 0")
    case True
    then show ?thesis by (simp only: simple_ffd_def compute_grid_cases if_True bnd_Inl)
  next
    case nz: False
    show ?thesis
    proof (cases "ranges_ok c")
      case False
      with nz show ?thesis
        by (simp only: simple_ffd_def compute_grid_cases if_True if_False bnd_Inl simp_thms)
    next
      case r: True
      show ?thesis
      proof (cases "nY c * nZ c < 0 \<or> nX c < 0")
        case True
        with nz r show ?thesis
          by (simp only: simple_ffd_def compute_grid_cases if_True if_False bnd_Inl simp_thms)
      next
        case z: False
        show ?thesis
        proof (cases "3 \<le> nY c \<and> 1 \<le> nZ c")
          case True
          with nz r z show ?thesis
            by (simp only: simple_ffd_def compute_grid_cases if_True if_False bnd_Inl simp_thms)
        next
          case lv: False
          from z have nx: "0 \<le> nX c" by simp
          have six: "(\<forall>r \<in> set (X ?g) \<union> set (Y ?g) \<union> set (Z ?g). length r = 6)
              \<longleftrightarrow> \<not> (nX c \<noteq> 6 \<and> 0 < nY c * nZ c)"
            using filled_rows_six [OF nx] by simp
          have cg: "compute_grid c = Inr ?g"
            using nz r z lv by (simp only: compute_grid_cases if_True if_False simp_thms)
          have "simple_ffd c fs = bnd (write_file c ?g) (\<lambda>content. Inr (fs(filename \<mapsto> content)))"
            by (simp only: simple_ffd_def cg bnd_Inr)
          also have "\<dots> = (if nX c \<noteq> 6 \<and> 0 < nY c * nZ c then Inl TypeError
              else Inr (fs(filename \<mapsto> header c @ block_of (X ?g) @ block_of (Y ?g) @ block_of (Z ?g))))"
            by (simp only: write_file_value six) simp
          finally show ?thesis using nz r z lv by (simp only: if_False if_True simp_thms)
        qed
      qed
    qed
  qed
qed

subsection \<open>The rows of the grids\<close>

lemma linear_samples_nth:
  "i < n \<Longrightarrow> linear_samples a b n ! i = a + real i * (b - a) / (real n - 1)"
  by (simp add: linear_samples_def)

lemma linear_samples_first: "0 < n \<Longrightarrow> linear_samples a b n ! 0 = a"
  by (simp add: linear_samples_def)

lemma linear_samples_last:
  assumes "2 \<le> n"
  shows "linear_samples a b n ! (n - 1) = b"
proof -
  have "real (n - 1) = real n - 1" using assms by simp
  moreover have "real n - 1 \<noteq> 0" using assms by simp
  ultimately show ?thesis using assms by (simp add: linear_samples_def)
qed

lemma sections_of_nth:
  assumes "k < nat (nZ c)"
  shows "z_sections (sections_of c) ! k = t_param c k * (z_tip c - z_root c) + z_root c"
    and "x_te (sections_of c) ! k
           = t_param c k * (x_tip_range c ! 0 - x_root_range c ! 0) + x_root_range c ! 0"
    and "x_le (sections_of c) ! k
           = t_param c k * (x_tip_range c ! 1 - x_root_range c ! 1) + x_root_range c ! 1"
    and "y_coords (sections_of c) ! 0 ! k
           = t_param c k * (y_tip_range c ! 0 - y_root_range c ! 0) + y_root_range c ! 0"
    and "y_coords (sections_of c) ! 1 ! k
           = t_param c k * (y_tip_range c ! 1 - y_root_range c ! 1) + y_root_range c ! 1"
  using assms by (simp_all add: sections_of_def station_def)

lemma filled_rows:
  assumes "k < nat (nZ c)" and "j < nat (nY c)"
  shows "X (filled c sec (nat (nY c * nZ c))) ! (k * nat (nY c) + j)
           = linear_samples (x_te sec ! k) (x_le sec ! k) (nat (nX c))"
    and "Y (filled c sec (nat (nY c * nZ c))) ! (k * nat (nY c) + j)
           = replicate (nat (nX c)) (y_coords sec ! j ! k)"
    and "Z (filled c sec (nat (nY c * nZ c))) ! (k * nat (nY c) + j)
           = replicate (nat (nX c)) (z_sections sec ! k)"
proof -
  have ny: "0 \<le> nY c" and nz: "0 \<le> nZ c" using assms by simp_all
  have b: "k * nat (nY c) + j < nat (nY c * nZ c)"
    using assms by (simp add: nat_rows [OF ny nz] row_index_bound)
  have dv: "(k * nat (nY c) + j) div nat (nY c) = k" and md: "(k * nat (nY c) + j) mod nat (nY c) = j"
    using assms(2) by simp_all
  show "X (filled c sec (nat (nY c * nZ c))) ! (k * nat (nY c) + j)
           = linear_samples (x_te sec ! k) (x_le sec ! k) (nat (nX c))"
    using b by (simp add: filled_def dv)
  show "Y (filled c sec (nat (nY c * nZ c))) ! (k * nat (nY c) + j)
           = replicate (nat (nX c)) (y_coords sec ! j ! k)"
    using b assms(2) by (simp add: filled_def dv)
  show "Z (filled c sec (nat (nY c * nZ c))) ! (k * nat (nY c) + j)
           = replicate (nat (nX c)) (z_sections sec ! k)"
    using b by (simp add: filled_def dv)
qed

lemma compute_grid_InrD:
  assumes "compute_grid c = Inr g"
  shows "g = filled c (sections_of c) (nat (nY c * nZ c))"
    and "0 \<le> nZ c" and "ranges_ok c" and "0 \<le> nX c" and "0 \<le> nY c * nZ c"
    and "nY c \<le> 2 \<or> nZ c \<le> 0"
    and "compute_sections c = Inr (sections_of c)"
proof -
  from assms have *: "g = filled c (sections_of c) (nat (nY c * nZ c))"
    "\<not> nZ c < 0" "ranges_ok c" "\<not> (nY c * nZ c < 0 \<or> nX c < 0)" "\<not> (3 \<le> nY c \<and> 1 \<le> nZ c)"
    by (simp_all only: compute_grid_cases split: if_splits) simp_all
  from * show "g = filled c (sections_of c) (nat (nY c * nZ c))" by simp
  from * show "0 \<le> nZ c" by simp
  from * show "ranges_ok c" by simp
  from *(4) show "0 \<le> nX c" by linarith
  from *(4) show "0 \<le> nY c * nZ c" by linarith
  from *(5) show "nY c \<le> 2 \<or> nZ c \<le> 0" by linarith
  from * show "compute_sections c = Inr (sections_of c)"
    by (intro compute_sections_value) (simp_all add: ranges_ok_def)
qed

lemma shipped_fields [simp]:
  "x_root_range shipped_config = [-0.1, 5.1]" "y_root_range shipped_config = [-0.5, 0.5]"
  "z_root shipped_config = -0.01" "x_tip_range shipped_config = [7.4, 9.2]"
  "y_tip_range shipped_config = [-0.25, 0.25]" "z_tip shipped_config = 14.25"
  "nX shipped_config = 6" "nY shipped_config = 2" "nZ shipped_config = 8"
  "span_exponent shipped_config = 0.8"
  by (simp_all add: shipped_config_def)

lemma shipped_sections: "compute_sections shipped_config = Inr (sections_of shipped_config)"
  by (rule compute_sections_value) simp_all

lemma shipped_grid:
  "compute_grid shipped_config = Inr (filled shipped_config (sections_of shipped_config) 16)"
  by (simp add: compute_grid_cases ranges_ok_def)

lemma shipped_t_last: "t_param shipped_config 7 = 1"
  by (simp add: t_param_def)

text \<open>
  C1: when the grids are produced and \<open>nX \<ge> 2\<close>, row \<open>k \<cdot> nY + j\<close> of \<open>X\<close> (for a station
  \<open>k < nZ\<close> and a level \<open>j < nY\<close>) has exactly \<open>nX\<close> values, value \<open>i\<close> being
  \<open>xTE\<^sub>k + i \<cdot> (xLE\<^sub>k - xTE\<^sub>k) / (nX - 1)\<close>; the first is \<open>xTE\<^sub>k\<close> and the last is \<open>xLE\<^sub>k\<close>, where
  \<open>xTE\<^sub>k = t\<^sub>k \<cdot> (xTipRange[0] - xRootRange[0]) + xRootRange[0]\<close> and
  \<open>xLE\<^sub>k = t\<^sub>k \<cdot> (xTipRange[1] - xRootRange[1]) + xRootRange[1]\<close>.
\<close>

theorem x_rows_linear:
  assumes "compute_sections c = Inr sec" and "compute_grid c = Inr g"
    and "k < nat (nZ c)" and "j < nat (nY c)" and "2 \<le> nX c"
  shows "x_te sec ! k = t_param c k * (x_tip_range c ! 0 - x_root_range c ! 0) + x_root_range c ! 0 \<and>
     x_le sec ! k = t_param c k * (x_tip_range c ! 1 - x_root_range c ! 1) + x_root_range c ! 1 \<and>
     length (X g ! (k * nat (nY c) + j)) = nat (nX c) \<and>
     (\<forall>i < nat (nX c). X g ! (k * nat (nY c) + j) ! i
         = x_te sec ! k + real i * (x_le sec ! k - x_te sec ! k) / (real_of_int (nX c) - 1)) \<and>
     X g ! (k * nat (nY c) + j) ! 0 = x_te sec ! k \<and>
     X g ! (k * nat (nY c) + j) ! (nat (nX c) - 1) = x_le sec ! k"
proof -
  note d = compute_grid_InrD [OF assms(2)]
  from assms(1) d(7) have sec: "sec = sections_of c" by simp
  have row: "X g ! (k * nat (nY c) + j) = linear_samples (x_te sec ! k) (x_le sec ! k) (nat (nX c))"
    unfolding d(1) sec using assms(3,4) by (rule filled_rows)
  have rn: "real (nat (nX c)) = real_of_int (nX c)" using assms(5) by simp
  have n2: "2 \<le> nat (nX c)" using assms(5) by simp
  have "x_te sec ! k = t_param c k * (x_tip_range c ! 0 - x_root_range c ! 0) + x_root_range c ! 0"
    unfolding sec using assms(3) by (rule sections_of_nth)
  moreover have "x_le sec ! k = t_param c k * (x_tip_range c ! 1 - x_root_range c ! 1) + x_root_range c ! 1"
    unfolding sec using assms(3) by (rule sections_of_nth)
  moreover have "length (X g ! (k * nat (nY c) + j)) = nat (nX c)" by (simp add: row)
  moreover have "\<forall>i < nat (nX c). X g ! (k * nat (nY c) + j) ! i
         = x_te sec ! k + real i * (x_le sec ! k - x_te sec ! k) / (real_of_int (nX c) - 1)"
    by (simp add: row linear_samples_nth rn)
  moreover have "X g ! (k * nat (nY c) + j) ! 0 = x_te sec ! k"
    using n2 by (simp add: row linear_samples_first)
  moreover have "X g ! (k * nat (nY c) + j) ! (nat (nX c) - 1) = x_le sec ! k"
    unfolding row using n2 by (rule linear_samples_last)
  ultimately show ?thesis by blast
qed

theorem x_rows_linear_witness:
  "compute_sections shipped_config = Inr (sections_of shipped_config) \<and>
   compute_grid shipped_config = Inr (filled shipped_config (sections_of shipped_config) 16) \<and>
   (7::nat) < nat (nZ shipped_config) \<and> (1::nat) < nat (nY shipped_config) \<and>
   2 \<le> nX shipped_config \<and>
   x_te (sections_of shipped_config) ! 7 = 7.4 \<and> x_le (sections_of shipped_config) ! 7 = 9.2 \<and>
   length (X (filled shipped_config (sections_of shipped_config) 16) ! 15) = 6 \<and>
   X (filled shipped_config (sections_of shipped_config) 16) ! 15 ! 0 = 7.4 \<and>
   X (filled shipped_config (sections_of shipped_config) 16) ! 15 ! 1 = 7.76 \<and>
   X (filled shipped_config (sections_of shipped_config) 16) ! 15 ! 5 = 9.2"
proof -
  have hyp: "(7::nat) < nat (nZ shipped_config)" "(1::nat) < nat (nY shipped_config)"
    "2 \<le> nX shipped_config" by simp_all
  note r = x_rows_linear [OF shipped_sections shipped_grid hyp]
  from r have te: "x_te (sections_of shipped_config) ! 7 = 7.4"
    and le: "x_le (sections_of shipped_config) ! 7 = 9.2"
    by (simp_all add: shipped_t_last)
  from r have "\<forall>i<6. X (filled shipped_config (sections_of shipped_config) 16) ! 15 ! i
      = 7.4 + real i * (9.2 - 7.4) / 5"
    by (simp add: te le)
  then have mid: "X (filled shipped_config (sections_of shipped_config) 16) ! 15 ! 1 = 7.76"
    by simp
  from r have ends: "length (X (filled shipped_config (sections_of shipped_config) 16) ! 15) = 6"
    "X (filled shipped_config (sections_of shipped_config) 16) ! 15 ! 0 = 7.4"
    "X (filled shipped_config (sections_of shipped_config) 16) ! 15 ! 5 = 9.2"
    by (simp_all add: te le)
  from shipped_sections shipped_grid hyp te le mid ends show ?thesis by blast
qed

subsection \<open>Rounding to double precision\<close>

lemma rhe_cases:
  "round_half_even x = \<lfloor>x\<rfloor> \<or> round_half_even x = \<lfloor>x\<rfloor> + 1"
  by (simp add: round_half_even_def Let_def)

lemma rhe_upper: "real_of_int (round_half_even x) \<le> x + 1 / 2"
  unfolding round_half_even_def Let_def by (auto) linarith+

lemma rhe_lower: "x - 1 / 2 \<le> real_of_int (round_half_even x)"
  unfolding round_half_even_def Let_def by (auto) linarith+

lemma rhe_of_int [simp]: "round_half_even (real_of_int m) = m"
  by (simp add: round_half_even_def)

lemma rhe_near_even:
  assumes "0 \<le> r" and "r \<le> 1 / 2" and "even m"
  shows "round_half_even (real_of_int m + r) = m"
proof -
  have fl: "\<lfloor>real_of_int m + r\<rfloor> = m" using assms by linarith
  show ?thesis using assms by (simp add: round_half_even_def Let_def fl)
qed

lemma rhe_mono:
  assumes "x \<le> y"
  shows "round_half_even x \<le> round_half_even y"
proof (cases "\<lfloor>x\<rfloor> = \<lfloor>y\<rfloor>")
  case True
  have "x - real_of_int \<lfloor>x\<rfloor> \<le> y - real_of_int \<lfloor>y\<rfloor>" using assms True by simp
  then show ?thesis using True by (auto simp add: round_half_even_def Let_def)
next
  case False
  have "\<lfloor>x\<rfloor> \<le> \<lfloor>y\<rfloor>" using assms by (rule floor_mono)
  with False have "\<lfloor>x\<rfloor> + 1 \<le> \<lfloor>y\<rfloor>" by simp
  moreover have "round_half_even x \<le> \<lfloor>x\<rfloor> + 1" using rhe_cases [of x] by auto
  moreover have "\<lfloor>y\<rfloor> \<le> round_half_even y" using rhe_cases [of y] by auto
  ultimately show ?thesis by linarith
qed

lemma floor_log2_bounds:
  assumes "0 < x"
  shows "2 powr real_of_int \<lfloor>log 2 x\<rfloor> \<le> x" and "x < 2 powr (real_of_int \<lfloor>log 2 x\<rfloor> + 1)"
proof -
  have "real_of_int \<lfloor>log 2 x\<rfloor> \<le> log 2 x" by simp
  with le_log_iff [of 2 x "real_of_int \<lfloor>log 2 x\<rfloor>"] assms
  show "2 powr real_of_int \<lfloor>log 2 x\<rfloor> \<le> x" by linarith
  have "log 2 x < real_of_int \<lfloor>log 2 x\<rfloor> + 1" by linarith
  with log_less_iff [of 2 x "real_of_int \<lfloor>log 2 x\<rfloor> + 1"] assms
  show "x < 2 powr (real_of_int \<lfloor>log 2 x\<rfloor> + 1)" by linarith
qed

lemma floor_log2_unique:
  assumes "0 < x" and "2 powr real_of_int k \<le> x" and "x < 2 powr (real_of_int k + 1)"
  shows "\<lfloor>log 2 x\<rfloor> = k"
proof -
  have "real_of_int k \<le> log 2 x"
    using le_log_iff [of 2 x "real_of_int k"] assms(1,2) by linarith
  moreover have "log 2 x < real_of_int k + 1"
    using log_less_iff [of 2 x "real_of_int k + 1"] assms(1,3) by linarith
  ultimately show ?thesis by linarith
qed

lemma f64_zero [simp]: "f64 0 = 0"
  by (simp add: f64_def)

lemma f64_pos:
  assumes "0 < x"
  shows "f64 x = real_of_int (round_half_even (x / 2 powr (real_of_int \<lfloor>log 2 x\<rfloor> - 52)))
                   * 2 powr (real_of_int \<lfloor>log 2 x\<rfloor> - 52)"
  using assms by (simp add: f64_def Let_def)

lemma f64_minus: "f64 (- x) = - f64 x"
  by (simp add: f64_def Let_def sgn_minus)

lemma rhe_numeral [simp]: "round_half_even (numeral n) = numeral n"
  using rhe_of_int [of "numeral n"] by simp

lemma powr_split: "(2::real) powr a * 2 powr (b - a) = 2 powr b"
proof -
  have "(2::real) powr a * 2 powr (b - a) = 2 powr (a + (b - a))" by (rule powr_add [symmetric])
  then show ?thesis by simp
qed

lemma powr_split_53: "(2::real) powr 53 * 2 powr (b - 52) = 2 powr (b + 1)"
proof -
  have "(2::real) powr 53 * 2 powr (b - 52) = 2 powr (53 + (b - 52))" by (rule powr_add [symmetric])
  moreover have "53 + (b - 52) = b + 1" by simp
  ultimately show ?thesis by (simp only:)
qed

lemma two_powr_52: "(2::real) powr 52 = real_of_int (2 ^ 52)"
  by simp

lemma two_powr_53: "(2::real) powr 53 = real_of_int (2 ^ 53)"
  by simp

lemma f64_pos_at:
  assumes "0 < x" and "2 powr real_of_int k \<le> x" and "x < 2 powr (real_of_int k + 1)"
  shows "f64 x = real_of_int (round_half_even (x / 2 powr (real_of_int k - 52)))
                   * 2 powr (real_of_int k - 52)"
  using f64_pos [OF assms(1)] floor_log2_unique [OF assms] by simp

lemma scaled_bounds:
  assumes "2 powr real_of_int e \<le> x" and "x < 2 powr (real_of_int e + 1)"
  shows "2 powr 52 \<le> x / 2 powr (real_of_int e - 52)"
    and "x / 2 powr (real_of_int e - 52) < 2 powr 53"
proof -
  have u: "0 < (2::real) powr (real_of_int e - 52)" by simp
  have a: "2 powr 52 * 2 powr (real_of_int e - 52) = (2::real) powr real_of_int e"
    by (rule powr_split)
  have b: "2 powr 53 * 2 powr (real_of_int e - 52) = (2::real) powr (real_of_int e + 1)"
    by (rule powr_split_53)
  have "2 powr 52 * 2 powr (real_of_int e - 52) \<le> x" using assms(1) by (simp only: a)
  then show "2 powr 52 \<le> x / 2 powr (real_of_int e - 52)"
    using u by (simp only: pos_le_divide_eq)
  have "x < 2 powr 53 * 2 powr (real_of_int e - 52)" using assms(2) by (simp only: b)
  then show "x / 2 powr (real_of_int e - 52) < 2 powr 53"
    using u by (simp only: pos_divide_less_eq)
qed

lemma f64_binade:
  assumes "0 < x"
  shows "2 powr real_of_int \<lfloor>log 2 x\<rfloor> \<le> f64 x"
    and "f64 x \<le> 2 powr (real_of_int \<lfloor>log 2 x\<rfloor> + 1)"
proof -
  let ?e = "\<lfloor>log 2 x\<rfloor>"
  let ?u = "(2::real) powr (real_of_int ?e - 52)"
  let ?q = "x / ?u"
  note b = floor_log2_bounds [OF assms]
  note s = scaled_bounds [OF b]
  have u: "0 < ?u" by simp
  have lo: "2 powr 52 \<le> real_of_int (round_half_even ?q)"
    using rhe_mono [of "2 powr 52" ?q] s(1) by simp
  have hi: "real_of_int (round_half_even ?q) \<le> 2 powr 53"
    using rhe_mono [of ?q "2 powr 53"] s(2) by simp
  have a: "2 powr 52 * ?u = (2::real) powr real_of_int ?e"
    by (rule powr_split)
  have c: "2 powr 53 * ?u = (2::real) powr (real_of_int ?e + 1)"
    by (rule powr_split_53)
  have "2 powr 52 * ?u \<le> real_of_int (round_half_even ?q) * ?u"
    using lo u by (intro mult_right_mono) simp_all
  then show "2 powr real_of_int ?e \<le> f64 x" by (simp only: a f64_pos [OF assms])
  have "real_of_int (round_half_even ?q) * ?u \<le> 2 powr 53 * ?u"
    using hi u by (intro mult_right_mono) simp_all
  then show "f64 x \<le> 2 powr (real_of_int ?e + 1)" by (simp only: c f64_pos [OF assms])
qed

lemma f64_pos_pos:
  assumes "0 < x"
  shows "0 < f64 x"
proof -
  have "(0::real) < 2 powr real_of_int \<lfloor>log 2 x\<rfloor>" by simp
  with f64_binade(1) [OF assms] show ?thesis by linarith
qed

lemma f64_mono_pos:
  assumes "0 < x" and "x \<le> y"
  shows "f64 x \<le> f64 y"
proof -
  have y: "0 < y" using assms by simp
  have el: "\<lfloor>log 2 x\<rfloor> \<le> \<lfloor>log 2 y\<rfloor>"
    using assms y by (intro floor_mono) simp
  show ?thesis
  proof (cases "\<lfloor>log 2 x\<rfloor> = \<lfloor>log 2 y\<rfloor>")
    case True
    let ?u = "(2::real) powr (real_of_int \<lfloor>log 2 y\<rfloor> - 52)"
    have "x / ?u \<le> y / ?u" using assms(2) by (simp add: divide_right_mono)
    then have "round_half_even (x / ?u) \<le> round_half_even (y / ?u)" by (rule rhe_mono)
    then have "real_of_int (round_half_even (x / ?u)) * ?u \<le> real_of_int (round_half_even (y / ?u)) * ?u"
      by (intro mult_right_mono) simp_all
    then show ?thesis by (simp only: f64_pos [OF assms(1)] f64_pos [OF y] True)
  next
    case False
    with el have "real_of_int \<lfloor>log 2 x\<rfloor> + 1 \<le> real_of_int \<lfloor>log 2 y\<rfloor>" by linarith
    then have "(2::real) powr (real_of_int \<lfloor>log 2 x\<rfloor> + 1) \<le> 2 powr real_of_int \<lfloor>log 2 y\<rfloor>"
      by (intro powr_mono) simp_all
    with f64_binade(2) [OF assms(1)] f64_binade(1) [OF y] show ?thesis by linarith
  qed
qed

lemma f64_mono:
  assumes "x \<le> y"
  shows "f64 x \<le> f64 y"
proof -
  consider "0 < x" | "x \<le> 0" "0 < y" | "x < 0" "y = 0" | "x = 0" "y = 0" | "x < 0" "y < 0"
    using assms by linarith
  then show ?thesis
  proof cases
    case 1
    then show ?thesis using assms by (rule f64_mono_pos)
  next
    case 2
    have "f64 x \<le> 0"
    proof (cases "x = 0")
      case True
      then show ?thesis by simp
    next
      case False
      with 2 have "0 < - x" by simp
      then have "0 < f64 (- x)" by (rule f64_pos_pos)
      then show ?thesis by (simp add: f64_minus)
    qed
    moreover have "0 < f64 y" using 2 by (intro f64_pos_pos)
    ultimately show ?thesis by linarith
  next
    case 3
    then have "0 < f64 (- x)" by (intro f64_pos_pos) simp
    with 3 show ?thesis by (simp add: f64_minus)
  next
    case 4
    then show ?thesis by simp
  next
    case 5
    then have "f64 (- y) \<le> f64 (- x)" using assms by (intro f64_mono_pos) simp_all
    then show ?thesis by (simp add: f64_minus)
  qed
qed

lemma f64_nonneg: "0 \<le> x \<Longrightarrow> 0 \<le> f64 x"
  using f64_mono [of 0 x] by simp

lemma f64_nonpos: "x \<le> 0 \<Longrightarrow> f64 x \<le> 0"
  using f64_mono [of x 0] by simp

lemma f64_pow2: "f64 (2 powr real_of_int k) = 2 powr real_of_int k"
proof -
  have p: "(0::real) < 2 powr real_of_int k" by simp
  have lt: "(2::real) powr real_of_int k < 2 powr (real_of_int k + 1)"
    by (intro powr_less_mono) simp_all
  have a: "2 powr 52 * 2 powr (real_of_int k - 52) = (2::real) powr real_of_int k"
    by (rule powr_split)
  have u: "(2::real) powr (real_of_int k - 52) \<noteq> 0" by simp
  have q: "2 powr real_of_int k / 2 powr (real_of_int k - 52) = (2::real) powr 52"
    by (simp only: a [symmetric] nonzero_mult_div_cancel_right [OF u])
  have r: "real_of_int (round_half_even (2 powr 52)) = 2 powr 52" by simp
  show ?thesis by (simp only: f64_pos_at [OF p order_refl lt] q r a)
qed

lemma f64_error:
  assumes "0 < x"
  shows "f64 x \<le> x * (1 + 1 / 2 ^ 53)"
proof -
  let ?e = "\<lfloor>log 2 x\<rfloor>"
  let ?u = "(2::real) powr (real_of_int ?e - 52)"
  have u: "0 < ?u" by simp
  note b = floor_log2_bounds [OF assms]
  have "real_of_int (round_half_even (x / ?u)) \<le> x / ?u + 1 / 2" by (rule rhe_upper)
  then have "real_of_int (round_half_even (x / ?u)) * ?u \<le> (x / ?u + 1 / 2) * ?u"
    using u by (intro mult_right_mono) simp_all
  also have "\<dots> = x + ?u / 2" using u by (simp add: field_simps)
  finally have 1: "f64 x \<le> x + ?u / 2" by (simp only: f64_pos [OF assms])
  have "?u = 2 powr real_of_int ?e / 2 powr 52" by (simp add: powr_diff del: powr_numeral)
  also have "\<dots> \<le> x / 2 powr 52" using b(1) by (intro divide_right_mono) simp_all
  finally have "?u \<le> x / 2 ^ 52" by simp
  with 1 show ?thesis by (simp add: field_simps)
qed

lemma sorted_map_mono:
  fixes xs :: "real list" and f :: "real \<Rightarrow> real"
  assumes "sorted xs" and "\<And>x y. x \<in> set xs \<Longrightarrow> y \<in> set xs \<Longrightarrow> x \<le> y \<Longrightarrow> f x \<le> f y"
  shows "sorted (map f xs)"
  using assms by (induction xs) auto

lemma sorted_rev_map_anti:
  fixes xs :: "real list" and f :: "real \<Rightarrow> real"
  assumes "sorted xs" and "\<And>x y. x \<in> set xs \<Longrightarrow> y \<in> set xs \<Longrightarrow> x \<le> y \<Longrightarrow> f y \<le> f x"
  shows "sorted (rev (map f xs))"
  using assms by (induction xs) (auto simp add: sorted_append)

lemma f64_one [simp]: "f64 1 = 1"
  using f64_pow2 [of 0] by simp

lemma f64_two [simp]: "f64 2 = 2"
  using f64_pow2 [of 1] by simp

lemma f64_half: "f64 (1 / 2) = 1 / 2"
  using f64_pow2 [of "- 1"] by (simp add: powr_minus_divide)

lemma f64_quarter: "f64 (1 / 4) = 1 / 4"
  using f64_pow2 [of "- 2"] by (simp add: powr_minus_divide)

lemma scale_bound:
  fixes a e :: real
  assumes "a * e \<le> 1"
  shows "a * (1 + e) \<le> a + 1"
  using assms by (simp add: algebra_simps)

lemma step_bound:
  assumes "3 \<le> n" and "real n \<le> 2 ^ 53"
  shows "real (n - 2) * f64 (1 / (real n - 1)) \<le> 1"
proof -
  let ?e = "1 / 2 ^ 53 :: real"
  have p: "0 < 1 / (real n - 1)" using assms(1) by simp
  have d: "0 < real n - 1" using assms(1) by simp
  have n2: "real (n - 2) = real n - 2" using assms(1) by simp
  have "(real n - 2) * ?e \<le> 2 ^ 53 * ?e"
    using assms(2) by (intro mult_right_mono) simp_all
  also have "\<dots> = 1" by simp
  finally have "(real n - 2) * (1 + ?e) \<le> (real n - 2) + 1" by (rule scale_bound)
  then have b: "(real n - 2) * (1 + ?e) \<le> real n - 1" by simp
  have "f64 (1 / (real n - 1)) \<le> 1 / (real n - 1) * (1 + ?e)" using p by (rule f64_error)
  then have "real (n - 2) * f64 (1 / (real n - 1))
      \<le> real (n - 2) * (1 / (real n - 1) * (1 + ?e))"
    by (intro mult_left_mono) simp_all
  also have "\<dots> = ((real n - 2) * (1 + ?e)) / (real n - 1)"
    by (simp only: n2 times_divide_eq_left times_divide_eq_right mult_1 mult.assoc)
  also have "\<dots> \<le> 1" using b d by (simp only: pos_divide_le_eq mult_1)
  finally show ?thesis .
qed

lemma linspace_f64_unit:
  assumes "0 \<le> num" and "real_of_int num \<le> 2 ^ 53"
  shows "\<exists>ys. linspace_f64 0 1 num = Inr ys \<and> length ys = nat num \<and> sorted ys
           \<and> (\<forall>y \<in> set ys. 0 \<le> y)"
proof (cases "1 < num")
  case False
  then have "num = 0 \<or> num = 1" using assms(1) by linarith
  then show ?thesis
  proof
    assume "num = 0"
    then show ?thesis by (simp add: linspace_f64_def)
  next
    assume "num = 1"
    then show ?thesis by (simp add: linspace_f64_def)
  qed
next
  case True
  let ?n = "nat num"
  let ?s = "f64 (1 / (real ?n - 1))"
  let ?raw = "map (\<lambda>i. f64 (f64 (real i * ?s))) [0..<?n]"
  let ?ys = "?raw[?n - 1 := 1]"
  have n2: "2 \<le> ?n" using True by simp
  have rn: "real_of_int (num - 1) = real ?n - 1" using True by simp
  have s0: "0 \<le> ?s" using n2 by (intro f64_nonneg) simp
  have val: "linspace_f64 0 1 num = Inr ?ys"
    using True by (simp add: linspace_f64_def Let_def rn)
  have raw_nth: "?raw ! i = f64 (f64 (real i * ?s))" if "i < ?n" for i
    using that by simp
  have raw_nonneg: "0 \<le> ?raw ! i" if "i < ?n" for i
  proof -
    have "0 \<le> real i * ?s" using s0 by simp
    then have "0 \<le> f64 (f64 (real i * ?s))" by (intro f64_nonneg)
    then show ?thesis by (simp only: raw_nth [OF that])
  qed
  have raw_mono: "?raw ! i \<le> ?raw ! j" if "i \<le> j" "j < ?n" for i j
  proof -
    have "real i * ?s \<le> real j * ?s" using that(1) s0 by (intro mult_right_mono) simp_all
    then have "f64 (f64 (real i * ?s)) \<le> f64 (f64 (real j * ?s))" by (intro f64_mono)
    moreover have "i < ?n" using that by simp
    ultimately show ?thesis by (simp only: raw_nth that)
  qed
  have raw_le1: "?raw ! i \<le> 1" if "i < ?n - 1" for i
  proof (cases "i = 0")
    case True
    have "i < ?n" using that by simp
    then have "?raw ! i = f64 (f64 (real i * ?s))" by (rule raw_nth)
    then show ?thesis using True by simp
  next
    case False
    then have n3: "3 \<le> ?n" using that by simp
    have nb: "real ?n \<le> 2 ^ 53" using assms by simp
    have "real i * ?s \<le> real (?n - 2) * ?s" using that s0 by (intro mult_right_mono) simp_all
    also have "\<dots> \<le> 1" using n3 nb by (rule step_bound)
    finally have "f64 (f64 (real i * ?s)) \<le> f64 (f64 1)" by (intro f64_mono)
    moreover have "i < ?n" using that by simp
    ultimately show ?thesis by (simp only: raw_nth f64_one)
  qed
  have len: "length ?ys = ?n" by simp
  have nth_last: "?ys ! (?n - 1) = 1" using n2 by simp
  have nth_other: "?ys ! i = ?raw ! i" if "i < ?n" "i \<noteq> ?n - 1" for i
    using that by simp
  have srt: "sorted ?ys"
    unfolding sorted_iff_nth_mono
  proof (intro allI impI)
    fix i j assume ij: "i \<le> j" and j: "j < length ?ys"
    then have jn: "j < ?n" and inn: "i < ?n" by simp_all
    show "?ys ! i \<le> ?ys ! j"
    proof (cases "j = ?n - 1")
      case True
      from True nth_last have yj: "?ys ! j = 1" by (simp only:)
      show ?thesis
      proof (cases "i = ?n - 1")
        case True
        from True nth_last have "?ys ! i = 1" by (simp only:)
        with yj show ?thesis by (simp only: order_refl)
      next
        case False
        with inn have "i < ?n - 1" by simp
        then have "?raw ! i \<le> 1" by (rule raw_le1)
        then show ?thesis by (simp only: nth_other [OF inn False] yj)
      qed
    next
      case False
      with ij jn have ni: "i \<noteq> ?n - 1" by simp
      have "?raw ! i \<le> ?raw ! j" using ij jn by (rule raw_mono)
      then show ?thesis by (simp only: nth_other [OF inn ni] nth_other [OF jn False])
    qed
  qed
  have nonneg: "\<forall>y \<in> set ?ys. 0 \<le> y"
  proof
    fix y assume "y \<in> set ?ys"
    then obtain i where i: "i < length ?ys" and y: "y = ?ys ! i" by (auto simp add: in_set_conv_nth)
    then have inn: "i < ?n" by simp
    show "0 \<le> y"
    proof (cases "i = ?n - 1")
      case True
      from True nth_last have "?ys ! i = 1" by (simp only:)
      then show ?thesis by (simp only: y)
    next
      case False
      have "0 \<le> ?raw ! i" using inn by (rule raw_nonneg)
      then show ?thesis by (simp only: y nth_other [OF inn False])
    qed
  qed
  from val len srt nonneg show ?thesis by blast
qed

lemma f64_big:
  assumes "2 ^ 53 \<le> x" and "x < 2 ^ 54"
  shows "f64 x = real_of_int (round_half_even (x / 2)) * 2"
proof -
  have "(0::real) < 2 ^ 53" by simp
  with assms(1) have p: "0 < x" by linarith
  have a: "2 powr real_of_int 53 \<le> x" using assms(1) by simp
  have b: "x < 2 powr (real_of_int 53 + 1)" using assms(2) by simp
  have u: "(2::real) powr (real_of_int 53 - 52) = 2" by simp
  show ?thesis using f64_pos_at [OF p a b] by (simp only: u)
qed

lemma f64_1e16_near:
  assumes "0 \<le> m" and "m \<le> 1"
  shows "f64 (m + 10 ^ 16) = 10 ^ 16"
proof -
  have lo: "2 ^ 53 \<le> m + 10 ^ 16" using assms(1) by simp
  have hi: "m + 10 ^ 16 < 2 ^ 54" using assms(2) by simp
  have ev: "even (5 * 10 ^ 15 :: int)" by simp
  have "(m + 10 ^ 16) / 2 = real_of_int (5 * 10 ^ 15) + m / 2" by simp
  moreover have "round_half_even (real_of_int (5 * 10 ^ 15) + m / 2) = 5 * 10 ^ 15"
    using assms ev by (intro rhe_near_even) simp_all
  ultimately have "round_half_even ((m + 10 ^ 16) / 2) = 5 * 10 ^ 15" by (simp only:)
  then show ?thesis by (simp only: f64_big [OF lo hi]) simp
qed

lemma f64_1e16: "f64 (10 ^ 16) = 10 ^ 16"
  using f64_1e16_near [of 0] by simp

lemma f64_1e16_2: "f64 (10 ^ 16 + 2) = 10 ^ 16 + 2"
proof -
  have lo: "(2::real) ^ 53 \<le> 10 ^ 16 + 2" by simp
  have hi: "(10::real) ^ 16 + 2 < 2 ^ 54" by simp
  have "((10::real) ^ 16 + 2) / 2 = real_of_int (5 * 10 ^ 15 + 1)" by simp
  then have "round_half_even (((10::real) ^ 16 + 2) / 2) = 5 * 10 ^ 15 + 1"
    by (simp only: rhe_of_int)
  then show ?thesis by (simp only: f64_big [OF lo hi]) simp
qed

lemma f64_1e16_num: "f64 10000000000000000 = 10000000000000000"
  using f64_1e16 by simp

lemma f64_1e16_2_num: "f64 10000000000000002 = 10000000000000002"
  using f64_1e16_2 by simp

lemma quarter_powr_half: "(1 / 4 :: real) powr (1 / 2) = 1 / 2"
  by (simp add: powr_half_sqrt real_sqrt_divide)

lemma absorbed_increment:
  "0 \<le> f64 (f64 (f64 (f64 (f64 (1 / 7))) powr f64 (4 / 5)) * 2)"
  "f64 (f64 (f64 (f64 (f64 (1 / 7))) powr f64 (4 / 5)) * 2) \<le> 1"
proof -
  let ?y = "f64 (f64 (f64 (1 / 7)))"
  let ?e = "f64 (4 / 5)"
  have y0: "0 \<le> ?y" by (intro f64_nonneg) simp
  have "f64 (1 / 7) \<le> f64 (1 / 4)" by (intro f64_mono) simp
  then have "f64 (1 / 7) \<le> 1 / 4" by (simp only: f64_quarter)
  then have "f64 (f64 (1 / 7)) \<le> f64 (1 / 4)" by (rule f64_mono)
  then have "f64 (f64 (1 / 7)) \<le> 1 / 4" by (simp only: f64_quarter)
  then have "?y \<le> f64 (1 / 4)" by (rule f64_mono)
  then have y4: "?y \<le> 1 / 4" by (simp only: f64_quarter)
  have "f64 (1 / 2) \<le> ?e" by (intro f64_mono) simp
  then have e2: "1 / 2 \<le> ?e" by (simp only: f64_half)
  then have e0: "0 \<le> ?e" by simp
  have "?y powr ?e \<le> (1 / 4) powr ?e" using e0 y0 y4 by (rule powr_mono2)
  also have "\<dots> \<le> (1 / 4) powr (1 / 2)" using e2 by (intro powr_mono') simp_all
  also have "\<dots> = 1 / 2" by (rule quarter_powr_half)
  finally have p: "?y powr ?e \<le> 1 / 2" .
  have p0: "0 \<le> ?y powr ?e" by simp
  have "f64 (?y powr ?e) \<le> f64 (1 / 2)" using p by (rule f64_mono)
  then have t: "f64 (?y powr ?e) \<le> 1 / 2" by (simp only: f64_half)
  have t0: "0 \<le> f64 (?y powr ?e)" using p0 by (rule f64_nonneg)
  from t0 show "0 \<le> f64 (f64 (?y powr ?e) * 2)" by (intro f64_nonneg) simp
  from t have "f64 (?y powr ?e) * 2 \<le> 1" by simp
  then have "f64 (f64 (?y powr ?e) * 2) \<le> f64 1" by (rule f64_mono)
  then show "f64 (f64 (?y powr ?e) * 2) \<le> 1" by simp
qed

text \<open>
  C2 as stated fails in the arithmetic of the script: for \<open>zRoot = 10\<^sup>1\<^sup>6\<close> and
  \<open>zTip = 10\<^sup>1\<^sup>6 + 2\<close>, two neighbouring doubles, the increment of the first station is
  absorbed by the rounding of the sum, and \<open>z\<^sub>0 = z\<^sub>1\<close> although \<open>zTip \<noteq> zRoot\<close>.
\<close>

theorem absorbed_stations_counterexample:
  "z_tip (shipped_config\<lparr>z_root := 10 ^ 16, z_tip := 10 ^ 16 + 2\<rparr>)
     \<noteq> z_root (shipped_config\<lparr>z_root := 10 ^ 16, z_tip := 10 ^ 16 + 2\<rparr>) \<and>
   z_station_f64 (shipped_config\<lparr>z_root := 10 ^ 16, z_tip := 10 ^ 16 + 2\<rparr>) 0 = Inr (10 ^ 16) \<and>
   z_station_f64 (shipped_config\<lparr>z_root := 10 ^ 16, z_tip := 10 ^ 16 + 2\<rparr>) 1 = Inr (10 ^ 16)"
proof -
  let ?c = "shipped_config\<lparr>z_root := 10 ^ 16, z_tip := 10 ^ 16 + 2\<rparr>"
  let ?m = "f64 (f64 (f64 (f64 (f64 (1 / 7))) powr f64 (4 / 5)) * 2)"
  have ne: "z_tip ?c \<noteq> z_root ?c" by simp
  have z0: "z_station_f64 ?c 0 = Inr (10 ^ 16)"
    by (simp add: z_station_f64_def z_sections_f64_def span_dist_f64_def linspace_f64_def
        Let_def getitem_def f64_1e16_num f64_1e16_2_num upt_conv_Cons)
  have "z_station_f64 ?c 1 = Inr (f64 (?m + 10 ^ 16))"
    by (simp add: z_station_f64_def z_sections_f64_def span_dist_f64_def linspace_f64_def
        Let_def getitem_def f64_1e16_num f64_1e16_2_num upt_conv_Cons)
  moreover have "f64 (?m + 10 ^ 16) = 10 ^ 16"
    using absorbed_increment by (rule f64_1e16_near)
  ultimately have z1: "z_station_f64 ?c 1 = Inr (10 ^ 16)" by (simp only:)
  from ne z0 z1 show ?thesis by (intro conjI)
qed

lemma span_dist_f64_sorted:
  assumes "0 \<le> nZ c" and "real_of_int (nZ c) \<le> 2 ^ 53" and "0 \<le> span_exponent c"
  shows "\<exists>ts. span_dist_f64 c = Inr ts \<and> length ts = nat (nZ c) \<and> sorted ts"
proof -
  from linspace_f64_unit [OF assms(1,2)]
  obtain ys where ys: "linspace_f64 0 1 (nZ c) = Inr ys" "length ys = nat (nZ c)" "sorted ys"
    "\<forall>y \<in> set ys. 0 \<le> y" by blast
  let ?ts = "map (\<lambda>x. f64 (x powr f64 (span_exponent c))) ys"
  have e0: "0 \<le> f64 (span_exponent c)" using assms(3) by (rule f64_nonneg)
  have "sorted ?ts"
  proof (rule sorted_map_mono [OF ys(3)])
    fix x y assume "x \<in> set ys" and "y \<in> set ys" and xy: "x \<le> y"
    then have "0 \<le> x" using ys(4) by simp
    with e0 have "x powr f64 (span_exponent c) \<le> y powr f64 (span_exponent c)"
      using xy by (rule powr_mono2)
    then show "f64 (x powr f64 (span_exponent c)) \<le> f64 (y powr f64 (span_exponent c))"
      by (rule f64_mono)
  qed
  moreover have "span_dist_f64 c = Inr ?ts" by (simp add: span_dist_f64_def ys(1))
  moreover have "length ?ts = nat (nZ c)" by (simp add: ys(2))
  ultimately show ?thesis by blast
qed

lemma z_sections_f64_monotone:
  assumes "0 \<le> nZ c" and "real_of_int (nZ c) \<le> 2 ^ 53" and "0 \<le> span_exponent c"
  shows "\<exists>zs. z_sections_f64 c = Inr zs \<and> length zs = nat (nZ c)
           \<and> (z_root c \<le> z_tip c \<longrightarrow> sorted zs) \<and> (z_tip c \<le> z_root c \<longrightarrow> sorted (rev zs))"
proof -
  from span_dist_f64_sorted [OF assms]
  obtain ts where ts: "span_dist_f64 c = Inr ts" "length ts = nat (nZ c)" "sorted ts" by blast
  let ?d = "f64 (f64 (z_tip c) - f64 (z_root c))"
  let ?f = "\<lambda>t. f64 (f64 (t * ?d) + f64 (z_root c))"
  let ?zs = "map ?f ts"
  have val: "z_sections_f64 c = Inr ?zs" by (simp add: z_sections_f64_def ts(1))
  have len: "length ?zs = nat (nZ c)" by (simp add: ts(2))
  have up: "sorted ?zs" if "z_root c \<le> z_tip c"
  proof (rule sorted_map_mono [OF ts(3)])
    fix x y :: real assume xy: "x \<le> y"
    have "f64 (z_root c) \<le> f64 (z_tip c)" using that by (rule f64_mono)
    then have d0: "0 \<le> ?d" by (intro f64_nonneg) simp
    have "x * ?d \<le> y * ?d" using xy d0 by (rule mult_right_mono)
    then have "f64 (x * ?d) \<le> f64 (y * ?d)" by (rule f64_mono)
    then have "f64 (x * ?d) + f64 (z_root c) \<le> f64 (y * ?d) + f64 (z_root c)" by simp
    then show "?f x \<le> ?f y" by (rule f64_mono)
  qed
  have down: "sorted (rev ?zs)" if "z_tip c \<le> z_root c"
  proof (rule sorted_rev_map_anti [OF ts(3)])
    fix x y :: real assume xy: "x \<le> y"
    have "f64 (z_tip c) \<le> f64 (z_root c)" using that by (rule f64_mono)
    then have d0: "?d \<le> 0" by (intro f64_nonpos) simp
    have "y * ?d \<le> x * ?d" using xy d0 by (rule mult_right_mono_neg)
    then have "f64 (y * ?d) \<le> f64 (x * ?d)" by (rule f64_mono)
    then have "f64 (y * ?d) + f64 (z_root c) \<le> f64 (x * ?d) + f64 (z_root c)" by simp
    then show "?f y \<le> ?f x" by (rule f64_mono)
  qed
  from val len up down show ?thesis by blast
qed

lemma z_sections_mono:
  assumes "0 \<le> span_exponent c" and "a \<le> b" and "b < nat (nZ c)"
  shows "z_root c \<le> z_tip c \<Longrightarrow>
           z_sections (sections_of c) ! a \<le> z_sections (sections_of c) ! b"
    and "z_tip c \<le> z_root c \<Longrightarrow>
           z_sections (sections_of c) ! b \<le> z_sections (sections_of c) ! a"
proof -
  have an: "a < nat (nZ c)" using assms(2,3) by simp
  have t: "t_param c a \<le> t_param c b"
  proof (cases "a = b")
    case True
    then show ?thesis by simp
  next
    case False
    with assms(2,3) have "2 \<le> nZ c" by linarith
    then show ?thesis using assms(1,2) by (rule t_param_mono)
  qed
  have za: "z_sections (sections_of c) ! a = t_param c a * (z_tip c - z_root c) + z_root c"
    using an by (rule sections_of_nth)
  have zb: "z_sections (sections_of c) ! b = t_param c b * (z_tip c - z_root c) + z_root c"
    using assms(3) by (rule sections_of_nth)
  show "z_root c \<le> z_tip c \<Longrightarrow>
           z_sections (sections_of c) ! a \<le> z_sections (sections_of c) ! b"
    using t by (simp add: za zb mult_right_mono)
  show "z_tip c \<le> z_root c \<Longrightarrow>
           z_sections (sections_of c) ! b \<le> z_sections (sections_of c) ! a"
    using t by (simp add: za zb mult_right_mono_neg)
qed

text \<open>
  C2, amended: when the grids are produced, row \<open>k \<cdot> nY + j\<close> of \<open>Z\<close> is \<open>nX\<close> copies of
  \<open>z\<^sub>k = t\<^sub>k \<cdot> (zTip - zRoot) + zRoot\<close>; for a positive exponent, \<open>z\<^sub>0, \<dots>, z\<^bsub>nZ-1\<^esub>\<close> is
  non-decreasing when \<open>zRoot \<le> zTip\<close> and non-increasing when \<open>zTip \<le> zRoot\<close>, in exact
  arithmetic and in double precision alike.
\<close>

theorem z_rows_monotone:
  assumes "compute_sections c = Inr sec" and "compute_grid c = Inr g"
    and "k < nat (nZ c)" and "j < nat (nY c)"
  shows "Z g ! (k * nat (nY c) + j) = replicate (nat (nX c)) (z_sections sec ! k) \<and>
     z_sections sec ! k = t_param c k * (z_tip c - z_root c) + z_root c \<and>
     (0 < span_exponent c \<and> z_root c \<le> z_tip c \<longrightarrow>
        (\<forall>a b. a \<le> b \<and> b < nat (nZ c) \<longrightarrow> z_sections sec ! a \<le> z_sections sec ! b)) \<and>
     (0 < span_exponent c \<and> z_tip c \<le> z_root c \<longrightarrow>
        (\<forall>a b. a \<le> b \<and> b < nat (nZ c) \<longrightarrow> z_sections sec ! b \<le> z_sections sec ! a)) \<and>
     (0 < span_exponent c \<and> real_of_int (nZ c) \<le> 2 ^ 53 \<longrightarrow>
        (\<exists>zs. z_sections_f64 c = Inr zs \<and> length zs = nat (nZ c) \<and>
           (z_root c \<le> z_tip c \<longrightarrow> sorted zs) \<and> (z_tip c \<le> z_root c \<longrightarrow> sorted (rev zs))))"
proof -
  note d = compute_grid_InrD [OF assms(2)]
  from assms(1) d(7) have sec: "sec = sections_of c" by simp
  have "Z g ! (k * nat (nY c) + j) = replicate (nat (nX c)) (z_sections sec ! k)"
    unfolding d(1) sec using assms(3,4) by (rule filled_rows)
  moreover have "z_sections sec ! k = t_param c k * (z_tip c - z_root c) + z_root c"
    unfolding sec using assms(3) by (rule sections_of_nth)
  moreover have "0 < span_exponent c \<and> z_root c \<le> z_tip c \<longrightarrow>
        (\<forall>a b. a \<le> b \<and> b < nat (nZ c) \<longrightarrow> z_sections sec ! a \<le> z_sections sec ! b)"
    unfolding sec using z_sections_mono(1) [of c] by (simp add: less_imp_le)
  moreover have "0 < span_exponent c \<and> z_tip c \<le> z_root c \<longrightarrow>
        (\<forall>a b. a \<le> b \<and> b < nat (nZ c) \<longrightarrow> z_sections sec ! b \<le> z_sections sec ! a)"
    unfolding sec using z_sections_mono(2) [of c] by (simp add: less_imp_le)
  moreover have "0 < span_exponent c \<and> real_of_int (nZ c) \<le> 2 ^ 53 \<longrightarrow>
        (\<exists>zs. z_sections_f64 c = Inr zs \<and> length zs = nat (nZ c) \<and>
           (z_root c \<le> z_tip c \<longrightarrow> sorted zs) \<and> (z_tip c \<le> z_root c \<longrightarrow> sorted (rev zs)))"
    using z_sections_f64_monotone [of c] d(2) by (simp add: less_imp_le)
  ultimately show ?thesis by blast
qed

theorem z_rows_monotone_witness:
  "compute_sections shipped_config = Inr (sections_of shipped_config) \<and>
   compute_grid shipped_config = Inr (filled shipped_config (sections_of shipped_config) 16) \<and>
   (7::nat) < nat (nZ shipped_config) \<and> (1::nat) < nat (nY shipped_config) \<and>
   0 < span_exponent shipped_config \<and> z_root shipped_config \<le> z_tip shipped_config \<and>
   real_of_int (nZ shipped_config) \<le> 2 ^ 53 \<and> (0::nat) \<le> 7 \<and>
   Z (filled shipped_config (sections_of shipped_config) 16) ! 15 = replicate 6 14.25 \<and>
   z_sections (sections_of shipped_config) ! 0 \<le> z_sections (sections_of shipped_config) ! 7 \<and>
   (\<exists>zs. z_sections_f64 shipped_config = Inr zs \<and> length zs = 8 \<and> sorted zs)"
proof -
  have hyp: "(7::nat) < nat (nZ shipped_config)" "(1::nat) < nat (nY shipped_config)"
    by simp_all
  have hyp2: "0 < span_exponent shipped_config" "z_root shipped_config \<le> z_tip shipped_config"
    "real_of_int (nZ shipped_config) \<le> 2 ^ 53" "(0::nat) \<le> 7" by simp_all
  note r = z_rows_monotone [OF shipped_sections shipped_grid hyp]
  from r have z: "z_sections (sections_of shipped_config) ! 7 = 14.25"
    by (simp add: shipped_t_last)
  from r have row: "Z (filled shipped_config (sections_of shipped_config) 16) ! 15 = replicate 6 14.25"
    by (simp add: z)
  from r hyp hyp2
  have mono: "z_sections (sections_of shipped_config) ! 0 \<le> z_sections (sections_of shipped_config) ! 7"
    by blast
  from r hyp2 obtain zs where "z_sections_f64 shipped_config = Inr zs"
    "length zs = nat (nZ shipped_config)" "sorted zs" by blast
  then have fl: "\<exists>zs. z_sections_f64 shipped_config = Inr zs \<and> length zs = 8 \<and> sorted zs"
    by (intro exI [of _ zs]) simp
  from shipped_sections shipped_grid hyp hyp2 row mono fl show ?thesis by blast
qed

subsection \<open>Shape and order of the grids\<close>

text \<open>
  C4 as stated fails: with three thickness levels the loop reads row 2 of \<open>y_coords\<close>,
  which has the two rows built from the lower and the upper bound of the y ranges.
\<close>

theorem grid_levels_counterexample:
  "compute_grid (shipped_config\<lparr>nY := 3\<rparr>) = Inl IndexError"
  by (simp add: compute_grid_cases ranges_ok_def)

text \<open>
  C4, amended: for \<open>nY \<le> 2\<close> (and non-negative \<open>nX\<close>, \<open>nY\<close>, \<open>nZ\<close>, ranges of at least two
  elements) the script produces grids \<open>X\<close>, \<open>Y\<close>, \<open>Z\<close> of \<open>nY \<cdot> nZ\<close> rows of \<open>nX\<close> values each,
  and row \<open>k \<cdot> nY + j\<close> holds station \<open>k\<close> at thickness level \<open>j\<close>: the stations follow each
  other in order, each with \<open>nY\<close> consecutive rows.
\<close>

theorem grid_shape_and_order:
  "0 \<le> nX c \<and> 0 \<le> nZ c \<and> 0 \<le> nY c \<and> nY c \<le> 2 \<and> ranges_ok c \<longrightarrow>
     (\<exists>g sec. compute_grid c = Inr g \<and> compute_sections c = Inr sec \<and>
        length (X g) = nat (nY c * nZ c) \<and> length (Y g) = nat (nY c * nZ c) \<and>
        length (Z g) = nat (nY c * nZ c) \<and>
        (\<forall>r \<in> set (X g) \<union> set (Y g) \<union> set (Z g). length r = nat (nX c)) \<and>
        (\<forall>k < nat (nZ c). \<forall>j < nat (nY c).
           X g ! (k * nat (nY c) + j) = linear_samples (x_te sec ! k) (x_le sec ! k) (nat (nX c)) \<and>
           Y g ! (k * nat (nY c) + j) = replicate (nat (nX c)) (y_coords sec ! j ! k) \<and>
           Z g ! (k * nat (nY c) + j) = replicate (nat (nX c)) (z_sections sec ! k)))"
proof (intro impI)
  assume a: "0 \<le> nX c \<and> 0 \<le> nZ c \<and> 0 \<le> nY c \<and> nY c \<le> 2 \<and> ranges_ok c"
  let ?g = "filled c (sections_of c) (nat (nY c * nZ c))"
  from a have prod: "0 \<le> nY c * nZ c" by simp
  have g: "compute_grid c = Inr ?g" using a prod by (intro compute_grid_value) simp_all
  have s: "compute_sections c = Inr (sections_of c)"
    using a by (intro compute_sections_value) (simp_all add: ranges_ok_def)
  have len: "\<forall>r \<in> set (X ?g) \<union> set (Y ?g) \<union> set (Z ?g). length r = nat (nX c)"
    using filled_rows_length [of _ c "sections_of c"] by blast
  have rows: "\<forall>k < nat (nZ c). \<forall>j < nat (nY c).
       X ?g ! (k * nat (nY c) + j)
         = linear_samples (x_te (sections_of c) ! k) (x_le (sections_of c) ! k) (nat (nX c)) \<and>
       Y ?g ! (k * nat (nY c) + j) = replicate (nat (nX c)) (y_coords (sections_of c) ! j ! k) \<and>
       Z ?g ! (k * nat (nY c) + j) = replicate (nat (nX c)) (z_sections (sections_of c) ! k)"
    by (simp add: filled_rows)
  have lens: "length (X ?g) = nat (nY c * nZ c)" "length (Y ?g) = nat (nY c * nZ c)"
    "length (Z ?g) = nat (nY c * nZ c)" by simp_all
  from g s lens len rows
  show "\<exists>g sec. compute_grid c = Inr g \<and> compute_sections c = Inr sec \<and>
        length (X g) = nat (nY c * nZ c) \<and> length (Y g) = nat (nY c * nZ c) \<and>
        length (Z g) = nat (nY c * nZ c) \<and>
        (\<forall>r \<in> set (X g) \<union> set (Y g) \<union> set (Z g). length r = nat (nX c)) \<and>
        (\<forall>k < nat (nZ c). \<forall>j < nat (nY c).
           X g ! (k * nat (nY c) + j) = linear_samples (x_te sec ! k) (x_le sec ! k) (nat (nX c)) \<and>
           Y g ! (k * nat (nY c) + j) = replicate (nat (nX c)) (y_coords sec ! j ! k) \<and>
           Z g ! (k * nat (nY c) + j) = replicate (nat (nX c)) (z_sections sec ! k))"
    by blast
qed

theorem grid_shape_and_order_witness:
  "0 \<le> nX shipped_config \<and> 0 \<le> nZ shipped_config \<and> 0 \<le> nY shipped_config \<and>
    nY shipped_config \<le> 2 \<and> ranges_ok shipped_config \<and>
    (\<exists>g. compute_grid shipped_config = Inr g \<and> length (X g) = 16 \<and> length (Y g) = 16 \<and>
       length (Z g) = 16 \<and> (\<forall>r \<in> set (X g) \<union> set (Y g) \<union> set (Z g). length r = 6))"
proof -
  have h1: "0 \<le> nX shipped_config \<and> 0 \<le> nZ shipped_config \<and> 0 \<le> nY shipped_config \<and>
    nY shipped_config \<le> 2 \<and> ranges_ok shipped_config"
    by (simp add: ranges_ok_def)
  from grid_shape_and_order [of shipped_config] h1
  obtain g where "compute_grid shipped_config = Inr g" "length (X g) = nat (nY shipped_config * nZ shipped_config)"
    "length (Y g) = nat (nY shipped_config * nZ shipped_config)"
    "length (Z g) = nat (nY shipped_config * nZ shipped_config)"
    "\<forall>r \<in> set (X g) \<union> set (Y g) \<union> set (Z g). length r = nat (nX shipped_config)"
    by blast
  then have "\<exists>g. compute_grid shipped_config = Inr g \<and> length (X g) = 16 \<and> length (Y g) = 16 \<and>
       length (Z g) = 16 \<and> (\<forall>r \<in> set (X g) \<union> set (Y g) \<union> set (Z g). length r = 6)"
    by (intro exI [of _ g]) simp
  then show ?thesis using h1 by blast
qed

lemma line_of_six:
  assumes "length r = 6"
  shows "line_of r = TAB # format_f8 (r ! 0) @ TAB # format_f8 (r ! 1)
              @ TAB # format_f8 (r ! 2) @ TAB # format_f8 (r ! 3)
              @ TAB # format_f8 (r ! 4) @ TAB # format_f8 (r ! 5) @ [NL]"
proof -
  have "format_row r = Inr (line_of r)" using assms by (simp add: format_row_line)
  then show ?thesis using assms by (simp add: format_row_def)
qed

text \<open>
  C5 as stated fails: the format has six conversions, so a row of twelve values is not
  written in two lines of six; the formatting raises TypeError.
\<close>

theorem format_arity_counterexample:
  "simple_ffd (shipped_config\<lparr>nX := 12\<rparr>) Map.empty = Inl TypeError"
  by (simp add: simple_ffd_cases ranges_ok_def)

text \<open>
  C5, amended: when the grids are produced and \<open>nX = 6\<close>, the file holds the header (the
  line \<open>1\<close> and the line of \<open>nX\<close>, \<open>nY\<close>, \<open>nZ\<close>), then the rows of \<open>X\<close>, of \<open>Y\<close> and of \<open>Z\<close>,
  \<open>nY \<cdot> nZ\<close> rows each, every row on one line of its six values in \<^verbatim>\<open>%3.8f\<close>.
\<close>

theorem file_layout:
  assumes "compute_grid c = Inr g" and nx: "nX c = 6"
  shows "simple_ffd c fs
           = Inr (fs(filename \<mapsto> header c @ block_of (X g) @ block_of (Y g) @ block_of (Z g))) \<and>
         header c = [TAB, TAB, CHR ''1'', NL] @ [TAB, TAB, CHR ''6''] @ [TAB, TAB]
                      @ format_d (nY c) @ [TAB, TAB] @ format_d (nZ c) @ [NL] \<and>
         length (X g) = nat (nY c * nZ c) \<and> length (Y g) = nat (nY c * nZ c) \<and>
         length (Z g) = nat (nY c * nZ c) \<and>
         (\<forall>r \<in> set (X g) \<union> set (Y g) \<union> set (Z g). length r = 6 \<and>
            line_of r = TAB # format_f8 (r ! 0) @ TAB # format_f8 (r ! 1)
              @ TAB # format_f8 (r ! 2) @ TAB # format_f8 (r ! 3)
              @ TAB # format_f8 (r ! 4) @ TAB # format_f8 (r ! 5) @ [NL])"
proof (intro conjI)
  note d = compute_grid_InrD [OF assms(1)]
  have run: "simple_ffd c fs = bnd (write_file c g) (\<lambda>content. Inr (fs(filename \<mapsto> content)))"
    using assms(1) by (simp add: simple_ffd_def)
  have six: "(\<forall>r \<in> set (X g) \<union> set (Y g) \<union> set (Z g). length r = 6)
      \<longleftrightarrow> (nX c = 6 \<or> \<not> 0 < nY c * nZ c)"
    unfolding d(1) using d(4) by (rule filled_rows_six)
  from nx have all: "\<forall>r \<in> set (X g) \<union> set (Y g) \<union> set (Z g). length r = 6"
    using six by simp
  show "simple_ffd c fs
      = Inr (fs(filename \<mapsto> header c @ block_of (X g) @ block_of (Y g) @ block_of (Z g)))"
    using all by (simp add: run write_file_value)
  show "header c = [TAB, TAB, CHR ''1'', NL] @ [TAB, TAB, CHR ''6''] @ [TAB, TAB]
                       @ format_d (nY c) @ [TAB, TAB] @ format_d (nZ c) @ [NL]"
    using nx by (simp add: header_def format_d_def digits.simps)
  show "length (X g) = nat (nY c * nZ c)" "length (Y g) = nat (nY c * nZ c)"
    "length (Z g) = nat (nY c * nZ c)" by (simp_all add: d(1))
  show "\<forall>r \<in> set (X g) \<union> set (Y g) \<union> set (Z g). length r = 6 \<and>
             line_of r = TAB # format_f8 (r ! 0) @ TAB # format_f8 (r ! 1)
               @ TAB # format_f8 (r ! 2) @ TAB # format_f8 (r ! 3)
               @ TAB # format_f8 (r ! 4) @ TAB # format_f8 (r ! 5) @ [NL]"
    using all line_of_six by blast
qed

theorem file_layout_witness:
  "compute_grid shipped_config = Inr (filled shipped_config (sections_of shipped_config) 16) \<and>
   nX shipped_config = 6 \<and>
   simple_ffd shipped_config Map.empty
     = Inr [filename \<mapsto> header shipped_config
              @ block_of (X (filled shipped_config (sections_of shipped_config) 16))
              @ block_of (Y (filled shipped_config (sections_of shipped_config) 16))
              @ block_of (Z (filled shipped_config (sections_of shipped_config) 16))] \<and>
   header shipped_config
     = [TAB, TAB, CHR ''1'', NL, TAB, TAB, CHR ''6'', TAB, TAB, CHR ''2'', TAB, TAB, CHR ''8'', NL] \<and>
   length (X (filled shipped_config (sections_of shipped_config) 16)) = 16"
  using file_layout [OF shipped_grid, of Map.empty] shipped_grid
  by (simp add: format_d_def digits.simps)

subsection \<open>Failures\<close>

lemma single_station_grid:
  "compute_grid (shipped_config\<lparr>nZ := 1\<rparr>) =
     Inr \<lparr>X = [[-0.1, 0.94, 1.98, 3.02, 4.06, 5.1], [-0.1, 0.94, 1.98, 3.02, 4.06, 5.1]],
          Y = [[-0.5, -0.5, -0.5, -0.5, -0.5, -0.5], [0.5, 0.5, 0.5, 0.5, 0.5, 0.5]],
          Z = [[-0.01, -0.01, -0.01, -0.01, -0.01, -0.01],
               [-0.01, -0.01, -0.01, -0.01, -0.01, -0.01]],
          row = 2\<rparr>"
  by (simp add: compute_grid_cases ranges_ok_def filled_def sections_of_def station_def
      t_param_def linear_samples_def upt_conv_Cons numeral_eq_Suc)

lemma format_values:
  "format_f8 (- (1 / 10)) = ''-0.10000000''" "format_f8 (47 / 50) = ''0.94000000''"
  "format_f8 (99 / 50) = ''1.98000000''" "format_f8 (151 / 50) = ''3.02000000''"
  "format_f8 (203 / 50) = ''4.06000000''" "format_f8 (51 / 10) = ''5.10000000''"
  "format_f8 (- (1 / 2)) = ''-0.50000000''" "format_f8 (1 / 2) = ''0.50000000''"
  "format_f8 (- (1 / 100)) = ''-0.01000000''"
  by (simp_all add: format_f8_def round_half_even_def Let_def) (simp_all add: digits.simps)

lemma single_station_header:
  "header (shipped_config\<lparr>nZ := 1\<rparr>)
     = [TAB, TAB] @ ''1'' @ [NL] @ [TAB, TAB] @ ''6'' @ [TAB, TAB] @ ''2'' @ [TAB, TAB] @ ''1'' @ [NL]"
  by (simp add: header_def format_d_def digits.simps)

text \<open>
  C6 as stated fails: with \<open>nZ = 1\<close> and the other values of the script, the run ends
  without an exception and writes the file of the single root station.
\<close>

theorem single_station_counterexample:
  "simple_ffd (shipped_config\<lparr>nZ := 1\<rparr>) Map.empty =
     Inr [filename \<mapsto>
       [TAB, TAB] @ ''1'' @ [NL]
       @ [TAB, TAB] @ ''6'' @ [TAB, TAB] @ ''2'' @ [TAB, TAB] @ ''1'' @ [NL]
       @ [TAB] @ ''-0.10000000'' @ [TAB] @ ''0.94000000'' @ [TAB] @ ''1.98000000''
         @ [TAB] @ ''3.02000000'' @ [TAB] @ ''4.06000000'' @ [TAB] @ ''5.10000000'' @ [NL]
       @ [TAB] @ ''-0.10000000'' @ [TAB] @ ''0.94000000'' @ [TAB] @ ''1.98000000''
         @ [TAB] @ ''3.02000000'' @ [TAB] @ ''4.06000000'' @ [TAB] @ ''5.10000000'' @ [NL]
       @ [TAB] @ ''-0.50000000'' @ [TAB] @ ''-0.50000000'' @ [TAB] @ ''-0.50000000''
         @ [TAB] @ ''-0.50000000'' @ [TAB] @ ''-0.50000000'' @ [TAB] @ ''-0.50000000'' @ [NL]
       @ [TAB] @ ''0.50000000'' @ [TAB] @ ''0.50000000'' @ [TAB] @ ''0.50000000''
         @ [TAB] @ ''0.50000000'' @ [TAB] @ ''0.50000000'' @ [TAB] @ ''0.50000000'' @ [NL]
       @ [TAB] @ ''-0.01000000'' @ [TAB] @ ''-0.01000000'' @ [TAB] @ ''-0.01000000''
         @ [TAB] @ ''-0.01000000'' @ [TAB] @ ''-0.01000000'' @ [TAB] @ ''-0.01000000'' @ [NL]
       @ [TAB] @ ''-0.01000000'' @ [TAB] @ ''-0.01000000'' @ [TAB] @ ''-0.01000000''
         @ [TAB] @ ''-0.01000000'' @ [TAB] @ ''-0.01000000'' @ [TAB] @ ''-0.01000000'' @ [NL]]"
  by (simp add: simple_ffd_def single_station_grid write_file_value single_station_header
      block_of_def line_of_def format_values)

text \<open>
  C6, amended: the script checks nothing itself, and its failures are exceptions of
  numpy and Python. A negative \<open>nZ\<close> gives ValueError; otherwise a range with fewer than
  two elements gives IndexError; otherwise a negative \<open>nX\<close> or \<open>nY \<cdot> nZ\<close> gives ValueError.
  With non-negative sizes, ranges of at least two elements, at most two thickness levels
  and rows of six values (or no row at all), the file is written: so for \<open>nZ = 1\<close>, for
  \<open>nZ = 0\<close> and for ranges of more than two elements.
\<close>

theorem failure_modes:
  "(nZ c < 0 \<longrightarrow> simple_ffd c fs = Inl ValueError) \<and>
   (0 \<le> nZ c \<and> \<not> ranges_ok c \<longrightarrow> simple_ffd c fs = Inl IndexError) \<and>
   (0 \<le> nZ c \<and> ranges_ok c \<and> (nY c * nZ c < 0 \<or> nX c < 0) \<longrightarrow>
      simple_ffd c fs = Inl ValueError) \<and>
   (0 \<le> nZ c \<and> ranges_ok c \<and> 0 \<le> nX c \<and> 0 \<le> nY c * nZ c \<and> (nY c \<le> 2 \<or> nZ c = 0)
      \<and> (nX c = 6 \<or> nY c * nZ c = 0) \<longrightarrow>
      (\<exists>content. simple_ffd c fs = Inr (fs(filename \<mapsto> content))))"
proof (intro conjI impI)
  assume "nZ c < 0"
  then show "simple_ffd c fs = Inl ValueError" by (simp add: simple_ffd_cases)
next
  assume "0 \<le> nZ c \<and> \<not> ranges_ok c"
  then show "simple_ffd c fs = Inl IndexError" by (simp add: simple_ffd_cases)
next
  assume a: "0 \<le> nZ c \<and> ranges_ok c \<and> (nY c * nZ c < 0 \<or> nX c < 0)"
  then have "\<not> nZ c < 0" "ranges_ok c" "nY c * nZ c < 0 \<or> nX c < 0" by simp_all
  then show "simple_ffd c fs = Inl ValueError"
    by (simp only: simple_ffd_cases if_True if_False simp_thms)
next
  assume a: "0 \<le> nZ c \<and> ranges_ok c \<and> 0 \<le> nX c \<and> 0 \<le> nY c * nZ c \<and> (nY c \<le> 2 \<or> nZ c = 0)
      \<and> (nX c = 6 \<or> nY c * nZ c = 0)"
  then have "\<not> nZ c < 0" "ranges_ok c" "\<not> (nY c * nZ c < 0 \<or> nX c < 0)"
    "\<not> (3 \<le> nY c \<and> 1 \<le> nZ c)" "\<not> (nX c \<noteq> 6 \<and> 0 < nY c * nZ c)" by linarith+
  then have "simple_ffd c fs = Inr (fs(filename \<mapsto>
             header c @ block_of (X (filled c (sections_of c) (nat (nY c * nZ c))))
               @ block_of (Y (filled c (sections_of c) (nat (nY c * nZ c))))
               @ block_of (Z (filled c (sections_of c) (nat (nY c * nZ c))))))"
    by (simp only: simple_ffd_cases if_True if_False simp_thms)
  then show "\<exists>content. simple_ffd c fs = Inr (fs(filename \<mapsto> content))" by blast
qed

theorem failure_modes_witness:
  "(nZ (shipped_config\<lparr>nZ := -1\<rparr>) < 0 \<and>
      simple_ffd (shipped_config\<lparr>nZ := -1\<rparr>) Map.empty = Inl ValueError) \<and>
   (0 \<le> nZ (shipped_config\<lparr>x_tip_range := [7.4]\<rparr>) \<and>
      \<not> ranges_ok (shipped_config\<lparr>x_tip_range := [7.4]\<rparr>) \<and>
      simple_ffd (shipped_config\<lparr>x_tip_range := [7.4]\<rparr>) Map.empty = Inl IndexError) \<and>
   (0 \<le> nZ (shipped_config\<lparr>nX := -1\<rparr>) \<and> ranges_ok (shipped_config\<lparr>nX := -1\<rparr>) \<and>
      nX (shipped_config\<lparr>nX := -1\<rparr>) < 0 \<and>
      simple_ffd (shipped_config\<lparr>nX := -1\<rparr>) Map.empty = Inl ValueError) \<and>
   (0 \<le> nZ (shipped_config\<lparr>nZ := 1, y_root_range := [-0.5, 0.5, 9]\<rparr>) \<and>
      ranges_ok (shipped_config\<lparr>nZ := 1, y_root_range := [-0.5, 0.5, 9]\<rparr>) \<and>
      length (y_root_range (shipped_config\<lparr>nZ := 1, y_root_range := [-0.5, 0.5, 9]\<rparr>)) = 3 \<and>
      nZ (shipped_config\<lparr>nZ := 1, y_root_range := [-0.5, 0.5, 9]\<rparr>) < 2 \<and>
      (\<exists>content. simple_ffd (shipped_config\<lparr>nZ := 1, y_root_range := [-0.5, 0.5, 9]\<rparr>) Map.empty
         = Inr [filename \<mapsto> content]))"
  using failure_modes [of "shipped_config\<lparr>nZ := -1\<rparr>" Map.empty]
    failure_modes [of "shipped_config\<lparr>x_tip_range := [7.4]\<rparr>" Map.empty]
    failure_modes [of "shipped_config\<lparr>nX := -1\<rparr>" Map.empty]
    failure_modes [of "shipped_config\<lparr>nZ := 1, y_root_range := [-0.5, 0.5, 9]\<rparr>" Map.empty]
  by (simp add: ranges_ok_def)

end
